theory Spec2Isabelle
  imports Main
begin

section \<open>JavaScript values\<close>

text \<open>
  A JavaScript string is a sequence of UTF-16 code units; \<open>s.length\<close> counts them.
  ASCII literals of the source are written with \<open>str\<close>; the Chinese literals are
  given by their code units.
\<close>

type_synonym jsstring = "nat list"

definition str :: "string \<Rightarrow> jsstring" where
  "str s = map of_char s"

text \<open>
  The values \<open>JSON.parse\<close> returns. \<open>JNum\<close> is a number with an integral value,
  \<open>JFrac\<close> any other number, kept by its literal: it is truthy and equals no request
  id. A property that is absent from an object reads as \<open>undefined\<close>, which is \<open>None\<close>
  in \<open>property\<close>.
\<close>

datatype json =
    JNull
  | JBool bool
  | JNum int
  | JFrac jsstring
  | JStr jsstring
  | JArr "json list"
  | JObj "(jsstring \<times> json) list"

definition property :: "json \<Rightarrow> string \<Rightarrow> json option" where
  "property v key = (case v of JObj kvs \<Rightarrow> map_of kvs (str key) | _ \<Rightarrow> None)"

definition truthy :: "json option \<Rightarrow> bool" where
  "truthy v = (case v of
       None \<Rightarrow> False
     | Some JNull \<Rightarrow> False
     | Some (JBool b) \<Rightarrow> b
     | Some (JNum n) \<Rightarrow> n \<noteq> 0
     | Some (JStr t) \<Rightarrow> t \<noteq> []
     | Some _ \<Rightarrow> True)"

text \<open>
  What a \<open>throw\<close> or a rejected promise carries is any JavaScript value, \<open>undefined\<close>
  included. An \<open>Error\<close> is read through its \<open>message\<close> only, so it is the object
  with that one property. Reading a property of \<open>undefined\<close> or of \<open>null\<close> throws a
  \<open>TypeError\<close>; \<open>cannot_read\<close> is its message.
\<close>

datatype thrown = Undefined | Value json

definition new_Error :: "jsstring \<Rightarrow> thrown" where
  "new_Error msg = Value (JObj [(str ''message'', JStr msg)])"

definition cannot_read :: "string \<Rightarrow> string \<Rightarrow> jsstring" where
  "cannot_read what key =
     str ''Cannot read properties of '' @ str what @ str '' (reading '' @ [39] @ str key
       @ [39] @ str '')''"

definition read_message :: "thrown \<Rightarrow> jsstring + json option" where
  "read_message e =
     (case e of
        Undefined \<Rightarrow> Inl (cannot_read ''undefined'' ''message'')
      | Value v \<Rightarrow>
          if v = JNull then Inl (cannot_read ''null'' ''message'')
          else Inr (property v ''message''))"

section \<open>Conversation turns (providers/types.ts)\<close>

datatype role = System | User | Assistant | Tool

record tool_call =
  tc_id :: jsstring
  tc_name :: jsstring
  tc_arguments :: jsstring

record message =
  role :: role
  content :: jsstring
  tool_calls :: "tool_call list option"
  tool_call_id :: "jsstring option"

record model_response =
  r_content :: "jsstring option"
  r_tool_calls :: "tool_call list option"

text \<open>
  \<open>ModelClient.chat\<close> is the completion backend: it returns a response or throws an
  \<open>Error\<close>, of which the callers read the message only.
\<close>

type_synonym backend = "message list \<Rightarrow> jsstring + model_response"

section \<open>ChatCompressService (chat-compress-service.ts)\<close>

record compress_config =
  maxTokens :: nat
  targetTokens :: nat
  keepRecentMessages :: nat

definition DEFAULT_CONFIG :: compress_config where
  "DEFAULT_CONFIG = \<lparr>maxTokens = 24000, targetTokens = 8000, keepRecentMessages = 4\<rparr>"

definition summary_header :: jsstring where
  "summary_header = [91, 23545, 35805, 21382, 21490, 25688, 35201, 93, 10]"

definition summary_placeholder :: jsstring where
  "summary_placeholder = [26080, 27861, 29983, 25104, 25688, 35201]"

definition summary_instruction :: jsstring where
  "summary_instruction = [20320, 26159, 19968, 20010, 23545, 35805, 25688, 35201, 21161,
     25163, 12290, 35831, 23558, 20197, 19979, 23545, 35805, 20869, 23481, 21387, 32553,
     25104, 31616, 27905, 30340, 25688, 35201, 65292, 20445, 30041, 20851, 38190, 20449,
     24687, 21644, 19978, 19979, 25991, 12290, 25688, 35201, 24212, 35813, 21253, 21547,
     65306, 20027, 35201, 35752, 35770, 30340, 35805, 39064, 12289, 20570, 20986, 30340,
     20915, 23450, 12289, 23436, 25104, 30340, 20219, 21153, 12289, 24453, 35299, 20915,
     30340, 38382, 39064, 12290]"

definition summary_request_prefix :: jsstring where
  "summary_request_prefix = [35831, 24635, 32467, 20197, 19979, 23545, 35805, 65306, 10, 10]"

text \<open>
  \<open>estimateTokens\<close>: the characters of every turn's content, plus the length of
  \<open>JSON.stringify(msg.tool_calls)\<close> where the turn has tool calls (an empty array is
  truthy too). The length of that JSON text is the parameter \<open>L\<close>.
  \<open>Math.ceil(n / 3)\<close> is \<open>(n + 2) div 3\<close>.
\<close>

definition totalChars :: "(tool_call list \<Rightarrow> nat) \<Rightarrow> message list \<Rightarrow> nat" where
  "totalChars L msgs =
     foldl (\<lambda>acc m. acc + length (content m)
                      + (case tool_calls m of None \<Rightarrow> 0 | Some tcs \<Rightarrow> L tcs)) 0 msgs"

definition estimateTokens :: "(tool_call list \<Rightarrow> nat) \<Rightarrow> message list \<Rightarrow> nat" where
  "estimateTokens L msgs = (totalChars L msgs + 2) div 3"

definition needsCompression ::
  "compress_config \<Rightarrow> (tool_call list \<Rightarrow> nat) \<Rightarrow> message list \<Rightarrow> bool" where
  "needsCompression cfg L msgs \<longleftrightarrow> estimateTokens L msgs > maxTokens cfg"

definition role_name :: "role \<Rightarrow> jsstring" where
  "role_name r = (case r of System \<Rightarrow> str ''system'' | User \<Rightarrow> str ''user''
                  | Assistant \<Rightarrow> str ''assistant'' | Tool \<Rightarrow> str ''tool'')"

fun join :: "jsstring \<Rightarrow> jsstring list \<Rightarrow> jsstring" where
  "join sep [] = []"
| "join sep [x] = x"
| "join sep (x # y # ys) = x @ sep @ join sep (y # ys)"

text \<open>
  \<open>generateSummary\<close> has no \<open>try\<close>: an error of the backend is an error of the
  call. The placeholder stands in for a response whose content is \<open>null\<close> or empty.
\<close>

definition summary_request :: "message list \<Rightarrow> message list" where
  "summary_request msgs =
     (let conversationText =
            join [10, 10] (map (\<lambda>m. role_name (role m) @ str '': '' @ content m) msgs)
      in [\<lparr>role = System, content = summary_instruction,
            tool_calls = None, tool_call_id = None\<rparr>,
          \<lparr>role = User, content = summary_request_prefix @ conversationText,
            tool_calls = None, tool_call_id = None\<rparr>])"

definition generateSummary :: "backend \<Rightarrow> message list \<Rightarrow> jsstring + jsstring" where
  "generateSummary backend msgs =
     (case backend (summary_request msgs) of
        Inl e \<Rightarrow> Inl e
      | Inr response \<Rightarrow>
          Inr (case r_content response of
                 None \<Rightarrow> summary_placeholder
               | Some c \<Rightarrow> if c = [] then summary_placeholder else c))"

text \<open>
  \<open>xs.slice(-k)\<close> and \<open>xs.slice(0, -k)\<close> for a count \<open>k\<close>. In JavaScript \<open>-0\<close> is
  \<open>0\<close>, so \<open>slice(-0)\<close> is the whole array and \<open>slice(0, -0)\<close> is empty.
\<close>

definition slice_last :: "nat \<Rightarrow> 'a list \<Rightarrow> 'a list" where
  "slice_last k xs = (if k = 0 then xs else drop (length xs - k) xs)"

definition slice_but_last :: "nat \<Rightarrow> 'a list \<Rightarrow> 'a list" where
  "slice_but_last k xs = (if k = 0 then [] else take (length xs - k) xs)"

definition summary_message :: "jsstring \<Rightarrow> message" where
  "summary_message summary =
     \<lparr>role = System, content = summary_header @ summary,
      tool_calls = None, tool_call_id = None\<rparr>"

definition compress ::
  "compress_config \<Rightarrow> (tool_call list \<Rightarrow> nat) \<Rightarrow> backend \<Rightarrow> message list
     \<Rightarrow> jsstring + message list" where
  "compress cfg L backend msgs =
     (if \<not> needsCompression cfg L msgs then Inr msgs
      else
        let systemMessage = find (\<lambda>m. role m = System) msgs;
            conversationMessages = filter (\<lambda>m. role m \<noteq> System) msgs;
            recentMessages = slice_last (keepRecentMessages cfg) conversationMessages;
            oldMessages = slice_but_last (keepRecentMessages cfg) conversationMessages
        in if oldMessages = [] then Inr msgs
           else case generateSummary backend oldMessages of
                  Inl e \<Rightarrow> Inl e
                | Inr summary \<Rightarrow>
                    Inr ((case systemMessage of None \<Rightarrow> [] | Some m \<Rightarrow> [m])
                         @ [summary_message summary] @ recentMessages))"

section \<open>ToolRegistry (tool-registry.ts)\<close>

text \<open>
  An executor runs on the parsed arguments; what it does to the world outside (files,
  subprocesses) is the state \<open>'w\<close> it passes on. Its promise resolves with a text or
  rejects with whatever the executor threw. \<open>execute\<close> passes both on.
\<close>

type_synonym 'w executor = "json \<Rightarrow> 'w \<Rightarrow> (thrown + jsstring) \<times> 'w"

type_synonym 'w registry = "jsstring \<rightharpoonup> 'w executor"

definition execute ::
  "'w registry \<Rightarrow> jsstring \<Rightarrow> json \<Rightarrow> 'w \<Rightarrow> (thrown + jsstring) \<times> 'w" where
  "execute registry name args w =
     (case registry name of
        None \<Rightarrow> (Inl (new_Error (str ''Tool not found: '' @ name)), w)
      | Some executor \<Rightarrow> executor args w)"

section \<open>Agent (chat.ts)\<close>

record agent_state =
  messages :: "message list"
  iterations :: nat
  isRunning :: bool

definition max_iterations_message :: jsstring where
  "max_iterations_message = [36798, 21040, 26368, 22823, 36845, 20195, 27425, 25968, 65292,
     20219, 21153, 21487, 33021, 26410, 23436, 25104, 12290]"

definition error_prefix :: jsstring where
  "error_prefix = [21457, 29983, 38169, 35823, 58, 32]"

text \<open>
  The constructor: \<open>{maxIterations: config?.maxIterations || 20, ..., ...config}\<close>.
  The spread comes last, so a \<open>maxIterations\<close> the caller gives wins, \<open>0\<close> included.
\<close>

definition effective_maxIterations :: "nat option \<Rightarrow> nat" where
  "effective_maxIterations given = (case given of None \<Rightarrow> 20 | Some n \<Rightarrow> n)"

text \<open>
  \<open>JSON.parse\<close> and \<open>JSON.stringify\<close> are the platform's: \<open>parse\<close> returns the value
  or the message of the \<open>SyntaxError\<close>. \<open>failure_payload\<close> is the object
  \<open>{ success: false, error: error.message }\<close> as \<open>JSON.stringify\<close> sees it: a property
  whose value is \<open>undefined\<close> is left out.
\<close>

definition failure_payload :: "json option \<Rightarrow> json" where
  "failure_payload m =
     JObj ((str ''success'', JBool False)
           # (case m of None \<Rightarrow> [] | Some v \<Rightarrow> [(str ''error'', v)]))"

text \<open>
  The body of the \<open>try\<close>/\<open>catch\<close> of \<open>handleToolCalls\<close>, for one tool call. The
  \<open>catch\<close> reads \<open>error.message\<close>; when that read throws, the \<open>TypeError\<close> leaves the
  \<open>catch\<close>: its message is the \<open>Inl\<close> of the result.
\<close>

definition run_tool_call ::
  "(jsstring \<Rightarrow> jsstring + json) \<Rightarrow> (json \<Rightarrow> jsstring) \<Rightarrow> 'w registry \<Rightarrow> 'w \<Rightarrow> tool_call
     \<Rightarrow> (jsstring + jsstring) \<times> 'w" where
  "run_tool_call parse stringify registry w tc =
     (case parse (tc_arguments tc) of
        Inl e \<Rightarrow> (Inr (stringify (failure_payload (Some (JStr e)))), w)
      | Inr args \<Rightarrow>
          (case execute registry (tc_name tc) args w of
             (Inl e, w') \<Rightarrow>
               (case read_message e of
                  Inl type_error \<Rightarrow> (Inl type_error, w')
                | Inr m \<Rightarrow> (Inr (stringify (failure_payload m)), w'))
           | (Inr result, w') \<Rightarrow> (Inr result, w')))"

definition tool_message :: "tool_call \<Rightarrow> jsstring \<Rightarrow> message" where
  "tool_message tc result =
     \<lparr>role = Tool, content = result, tool_calls = None, tool_call_id = Some (tc_id tc)\<rparr>"

text \<open>
  The \<open>for\<close> loop of \<open>handleToolCalls\<close>. An exception that leaves the \<open>catch\<close> ends
  the loop and the function; the turns pushed so far stay in \<open>state.messages\<close>. The
  first component of the result is the message of that exception, if there is one.
\<close>

fun tool_loop ::
  "(jsstring \<Rightarrow> jsstring + json) \<Rightarrow> (json \<Rightarrow> jsstring) \<Rightarrow> 'w registry
     \<Rightarrow> message list \<Rightarrow> 'w \<Rightarrow> tool_call list \<Rightarrow> jsstring option \<times> message list \<times> 'w" where
  "tool_loop parse stringify registry msgs w [] = (None, msgs, w)"
| "tool_loop parse stringify registry msgs w (tc # tcs) =
     (case run_tool_call parse stringify registry w tc of
        (Inl e, w') \<Rightarrow> (Some e, msgs, w')
      | (Inr result, w') \<Rightarrow>
          tool_loop parse stringify registry (msgs @ [tool_message tc result]) w' tcs)"

definition assistant_message :: "jsstring \<Rightarrow> tool_call list option \<Rightarrow> message" where
  "assistant_message text calls =
     \<lparr>role = Assistant, content = text, tool_calls = calls, tool_call_id = None\<rparr>"

definition or_empty :: "jsstring option \<Rightarrow> jsstring" where
  "or_empty c = (case c of None \<Rightarrow> [] | Some s \<Rightarrow> s)"

definition handleToolCalls ::
  "(jsstring \<Rightarrow> jsstring + json) \<Rightarrow> (json \<Rightarrow> jsstring) \<Rightarrow> 'w registry
     \<Rightarrow> message list \<Rightarrow> 'w \<Rightarrow> tool_call list \<Rightarrow> jsstring option
     \<Rightarrow> jsstring option \<times> message list \<times> 'w" where
  "handleToolCalls parse stringify registry msgs w toolCalls text =
     tool_loop parse stringify registry
       (msgs @ [assistant_message (or_empty text) (Some toolCalls)]) w toolCalls"

text \<open>
  The \<open>while\<close> loop of \<open>chat\<close>. The triple is the agent's state, the world and
  \<open>finalResponse\<close>. The call of \<open>handleToolCalls\<close> is inside the \<open>try\<close>: an exception
  that leaves it is caught like an error of the backend.
\<close>

function react_loop ::
  "(jsstring \<Rightarrow> jsstring + json) \<Rightarrow> (json \<Rightarrow> jsstring) \<Rightarrow> 'w registry \<Rightarrow> backend \<Rightarrow> nat
     \<Rightarrow> agent_state \<times> 'w \<times> jsstring \<Rightarrow> agent_state \<times> 'w \<times> jsstring" where
  "react_loop parse stringify registry backend maxIter (st, w, finalResponse) =
     (if isRunning st \<and> iterations st < maxIter then
        (let st1 = st\<lparr>iterations := iterations st + 1\<rparr> in
         case backend (messages st1) of
           Inl e \<Rightarrow>
             react_loop parse stringify registry backend maxIter
               (st1\<lparr>isRunning := False\<rparr>, w, error_prefix @ e)
         | Inr response \<Rightarrow>
             (case r_tool_calls response of
                Some (tc # tcs) \<Rightarrow>
                  (case handleToolCalls parse stringify registry (messages st1) w (tc # tcs)
                          (r_content response) of
                     (None, msgs', w') \<Rightarrow>
                       react_loop parse stringify registry backend maxIter
                         (st1\<lparr>messages := msgs'\<rparr>, w', finalResponse)
                   | (Some e, msgs', w') \<Rightarrow>
                       react_loop parse stringify registry backend maxIter
                         (st1\<lparr>messages := msgs', isRunning := False\<rparr>, w',
                          error_prefix @ e))
              | _ \<Rightarrow>
                  react_loop parse stringify registry backend maxIter
                    (st1\<lparr>messages := messages st1
                                @ [assistant_message (or_empty (r_content response)) None],
                         isRunning := False\<rparr>,
                     w, or_empty (r_content response))))
      else (st, w, finalResponse))"
  by pat_completeness auto

termination
  by (relation "measure (\<lambda>(parse, stringify, registry, backend, maxIter, st, w, f).
         if isRunning st then Suc (maxIter - iterations st) else 0)") auto

declare react_loop.simps [simp del]

definition user_message :: "jsstring \<Rightarrow> message" where
  "user_message text = \<lparr>role = User, content = text, tool_calls = None, tool_call_id = None\<rparr>"

definition system_message :: "jsstring \<Rightarrow> message" where
  "system_message text = \<lparr>role = System, content = text, tool_calls = None, tool_call_id = None\<rparr>"

text \<open>
  \<open>chat\<close>. \<open>systemPrompt\<close> is the prompt \<open>initialize\<close> assembles. The compression
  service of an agent has the default configuration. The call of \<open>compress\<close> is outside
  the loop's \<open>try\<close>: its error is the error of \<open>chat\<close>.
\<close>

definition chat ::
  "(jsstring \<Rightarrow> jsstring + json) \<Rightarrow> (json \<Rightarrow> jsstring) \<Rightarrow> (tool_call list \<Rightarrow> nat)
     \<Rightarrow> 'w registry \<Rightarrow> backend \<Rightarrow> nat \<Rightarrow> jsstring
     \<Rightarrow> agent_state \<Rightarrow> 'w \<Rightarrow> jsstring \<Rightarrow> (jsstring + jsstring) \<times> agent_state \<times> 'w" where
  "chat parse stringify L registry backend maxIter systemPrompt st w userMessage =
     (let msgs0 = (if messages st = [] then [system_message systemPrompt] else messages st);
          msgs1 = msgs0 @ [user_message userMessage]
      in case (if needsCompression DEFAULT_CONFIG L msgs1
               then compress DEFAULT_CONFIG L backend msgs1 else Inr msgs1) of
           Inl e \<Rightarrow> (Inl e, st\<lparr>messages := msgs1\<rparr>, w)
         | Inr msgs2 \<Rightarrow>
             (case react_loop parse stringify registry backend maxIter
                     (st\<lparr>messages := msgs2, isRunning := True, iterations := 0\<rparr>, w, []) of
                (st', w', finalResponse) \<Rightarrow>
                  (Inr (if iterations st' \<ge> maxIter then max_iterations_message
                        else finalResponse),
                   st', w')))"

section \<open>MCPClient (mcp-client.ts)\<close>

subsection \<open>Platform functions: trim, split, Buffer.toString\<close>

definition is_space :: "nat \<Rightarrow> bool" where
  "is_space c \<longleftrightarrow> c \<in> {9, 10, 11, 12, 13, 32, 160, 5760, 8232, 8233, 8239, 8287, 12288, 65279}
                  \<or> (8192 \<le> c \<and> c \<le> 8202)"

definition trim :: "jsstring \<Rightarrow> jsstring" where
  "trim t = rev (dropWhile is_space (rev (dropWhile is_space t)))"

text \<open>\<open>t.split('\n')\<close>: the pieces between line feeds, never an empty array.\<close>

fun split_nl :: "jsstring \<Rightarrow> jsstring list" where
  "split_nl [] = [[]]"
| "split_nl (c # cs) =
     (if c = 10 then [] # split_nl cs
      else (case split_nl cs of [] \<Rightarrow> [[c]] | l # ls \<Rightarrow> (c # l) # ls))"

text \<open>
  \<open>data.toString()\<close> decodes the bytes of one chunk as UTF-8. The decoder is the one
  of the Encoding Standard: a byte that cannot continue the sequence ends it with
  U+FFFD and is read again, and so does the end of the chunk inside a sequence.
  A code point above U+FFFF is two code units.
\<close>

definition utf16 :: "nat \<Rightarrow> jsstring" where
  "utf16 cp = (if cp < 65536 then [cp]
               else [55296 + (cp - 65536) div 1024, 56320 + (cp - 65536) mod 1024])"

function utf8_decode :: "nat \<Rightarrow> nat \<Rightarrow> nat \<Rightarrow> nat \<Rightarrow> nat \<Rightarrow> nat list \<Rightarrow> jsstring" where
  "utf8_decode cp seen needed lo hi [] = (if needed = 0 then [] else [65533])"
| "utf8_decode cp seen needed lo hi (b # bs) =
     (if needed = 0 then
        (if b \<le> 127 then b # utf8_decode 0 0 0 128 191 bs
         else if 194 \<le> b \<and> b \<le> 223 then utf8_decode (b mod 32) 0 1 128 191 bs
         else if 224 \<le> b \<and> b \<le> 239 then
           utf8_decode (b mod 16) 0 2 (if b = 224 then 160 else 128)
             (if b = 237 then 159 else 191) bs
         else if 240 \<le> b \<and> b \<le> 244 then
           utf8_decode (b mod 8) 0 3 (if b = 240 then 144 else 128)
             (if b = 244 then 143 else 191) bs
         else 65533 # utf8_decode 0 0 0 128 191 bs)
      else if b < lo \<or> hi < b then 65533 # utf8_decode 0 0 0 128 191 (b # bs)
      else if seen + 1 = needed then
        utf16 (cp * 64 + b mod 64) @ utf8_decode 0 0 0 128 191 bs
      else utf8_decode (cp * 64 + b mod 64) (seen + 1) needed 128 191 bs)"
  by pat_completeness auto

termination
  by (relation "measure (\<lambda>(cp, seen, needed, lo, hi, bs).
         2 * length bs + (if needed = 0 then 0 else 1))") auto

definition toString :: "nat list \<Rightarrow> jsstring" where
  "toString data = utf8_decode 0 0 0 128 191 data"

subsection \<open>The client's state\<close>

record server_config =
  command :: jsstring
  args :: "jsstring list"
  env :: "(jsstring \<times> jsstring) list"

text \<open>What the client writes to the standard input of a subprocess, one line each.\<close>

datatype wire =
    RpcRequest nat jsstring json
  | RpcNotification jsstring json

record process =
  stdin :: "wire list"
  stdin_ended :: bool
  killed :: bool

text \<open>
  \<open>pendingRequests\<close> is a \<open>Map\<close> from request id to the \<open>resolve\<close> and \<open>reject\<close> of
  the request's promise and its timer. All three are named by the request id in this
  model, so the map is the list of its keys, in insertion order.
\<close>

record connection =
  process :: process
  serverConfig :: "server_config option"
  tools :: json
  ready :: bool
  pendingRequests :: "nat list"
  buffer :: jsstring

datatype mcp_error =
    NotInConfig jsstring
  | NotConnected jsstring
  | RequestTimeout jsstring jsstring
  | McpError "json option"
  | ServerDisconnected
  | ProcessError jsstring
  | FailedToStart jsstring

datatype outcome = Resolved "json option" | Rejected mcp_error

datatype event =
    ServerLog jsstring jsstring
  | ServerExit jsstring "int option"
  | ServerError jsstring mcp_error
  | ServerReady jsstring json
  | Notification jsstring json

text \<open>
  The callback of a request's timer is a closure over the connection object, the method
  and the server's name; it runs after \<open>t_delay\<close> milliseconds unless the timer is
  cleared first.
\<close>

record timer =
  t_conn :: nat
  t_method :: jsstring
  t_server :: jsstring
  t_delay :: nat

text \<open>
  Connection objects live in \<open>heap\<close>; \<open>connections\<close> maps a server's name to the
  object registered under it. An object that is no longer registered stays alive in the
  closures of its timers. \<open>emitted\<close> are the events given to the observers, \<open>settled\<close>
  the calls of \<open>resolve\<close> and \<open>reject\<close>, by request id, both in order. \<open>config\<close> is
  \<open>mcpServers\<close> of the loaded configuration, in the order of \<open>Object.keys\<close>.
\<close>

record mcp_client =
  config :: "(jsstring \<times> server_config) list"
  connections :: "jsstring \<rightharpoonup> nat"
  heap :: "nat \<Rightarrow> connection"
  next_ref :: nat
  requestId :: nat
  timers :: "(nat \<times> timer) list"
  emitted :: "event list"
  settled :: "(nat \<times> outcome) list"

definition new_process :: process where
  "new_process = \<lparr>stdin = [], stdin_ended = False, killed = False\<rparr>"

definition new_connection :: "server_config option \<Rightarrow> connection" where
  "new_connection cfg =
     \<lparr>process = new_process, serverConfig = cfg, tools = JArr [], ready = False,
      pendingRequests = [], buffer = []\<rparr>"

definition new_client :: "(jsstring \<times> server_config) list \<Rightarrow> mcp_client" where
  "new_client cfg =
     \<lparr>config = cfg, connections = Map.empty, heap = (\<lambda>_. new_connection None),
      next_ref = 0, requestId = 0, timers = [], emitted = [], settled = []\<rparr>"

definition stdin_write :: "wire \<Rightarrow> connection \<Rightarrow> connection" where
  "stdin_write ln c = c\<lparr>process := (process c)\<lparr>stdin := stdin (process c) @ [ln]\<rparr>\<rparr>"

definition update_connection ::
  "nat \<Rightarrow> (connection \<Rightarrow> connection) \<Rightarrow> mcp_client \<Rightarrow> mcp_client" where
  "update_connection r f s = s\<lparr>heap := (heap s)(r := f (heap s r))\<rparr>"

subsection \<open>Requests, notifications and timeouts\<close>

text \<open>
  \<open>sendRequest\<close> throws before it takes an id when no connection is registered under
  the name. It does not read \<open>ready\<close>. The promise it returns is the one of the id.
\<close>

definition sendRequest ::
  "mcp_client \<Rightarrow> jsstring \<Rightarrow> jsstring \<Rightarrow> json \<Rightarrow> mcp_error + nat \<times> mcp_client" where
  "sendRequest s serverName method params =
     (case connections s serverName of
        None \<Rightarrow> Inl (NotConnected serverName)
      | Some r \<Rightarrow>
          (let rid = requestId s + 1;
               s1 = s\<lparr>requestId := rid,
                      timers := timers s @ [(rid, \<lparr>t_conn = r, t_method = method,
                                                  t_server = serverName, t_delay = 60000\<rparr>)]\<rparr>
           in Inr (rid, update_connection r
                         (\<lambda>c. stdin_write (RpcRequest rid method params)
                                (c\<lparr>pendingRequests :=
                                     (if rid \<in> set (pendingRequests c) then pendingRequests c
                                      else pendingRequests c @ [rid])\<rparr>)) s1)))"

definition callTool ::
  "mcp_client \<Rightarrow> jsstring \<Rightarrow> jsstring \<Rightarrow> json \<Rightarrow> mcp_error + nat \<times> mcp_client" where
  "callTool s serverName toolName arguments =
     sendRequest s serverName (str ''tools/call'')
       (JObj [(str ''name'', JStr toolName), (str ''arguments'', arguments)])"

definition sendNotification :: "mcp_client \<Rightarrow> jsstring \<Rightarrow> jsstring \<Rightarrow> json \<Rightarrow> mcp_client" where
  "sendNotification s serverName method params =
     (case connections s serverName of
        None \<Rightarrow> s
      | Some r \<Rightarrow> update_connection r (stdin_write (RpcNotification method params)) s)"

definition clearTimeout :: "nat \<Rightarrow> mcp_client \<Rightarrow> mcp_client" where
  "clearTimeout rid s = s\<lparr>timers := filter (\<lambda>(i, t). i \<noteq> rid) (timers s)\<rparr>"

definition settle :: "nat \<Rightarrow> outcome \<Rightarrow> mcp_client \<Rightarrow> mcp_client" where
  "settle rid out s = s\<lparr>settled := settled s @ [(rid, out)]\<rparr>"

text \<open>
  The timer of request \<open>rid\<close> fires: its callback deletes the entry from the connection
  object of its closure and rejects. A timer that is not armed does nothing.
\<close>

definition timeout_fires :: "mcp_client \<Rightarrow> nat \<Rightarrow> mcp_client" where
  "timeout_fires s rid =
     (case map_of (timers s) rid of
        None \<Rightarrow> s
      | Some t \<Rightarrow>
          settle rid (Rejected (RequestTimeout (t_method t) (t_server t)))
            (update_connection (t_conn t)
               (\<lambda>c. c\<lparr>pendingRequests := removeAll rid (pendingRequests c)\<rparr>)
               (clearTimeout rid s)))"

subsection \<open>handleServerData\<close>

text \<open>
  \<open>pendingRequests.get(response.id)\<close>: the keys are the ids the client has given, so
  only a number with that value finds an entry.
\<close>

definition pending_get :: "nat list \<Rightarrow> json \<Rightarrow> nat option" where
  "pending_get pending v =
     (case v of
        JNum n \<Rightarrow> if 0 \<le> n \<and> nat n \<in> set pending then Some (nat n) else None
      | _ \<Rightarrow> None)"

text \<open>
  The body of the \<open>try\<close> after \<open>JSON.parse\<close>, for the connection object \<open>r\<close>.
  Reading \<open>id\<close> of \<open>null\<close> throws, and the \<open>catch\<close> drops the line.
\<close>

definition handle_response :: "jsstring \<Rightarrow> nat \<Rightarrow> json \<Rightarrow> mcp_client \<Rightarrow> mcp_client" where
  "handle_response serverName r response s =
     (if response = JNull then s
      else case property response ''id'' of
        Some idv \<Rightarrow>
          (case pending_get (pendingRequests (heap s r)) idv of
             Some rid \<Rightarrow>
               (let s1 = update_connection r
                           (\<lambda>c. c\<lparr>pendingRequests := removeAll rid (pendingRequests c)\<rparr>)
                           (clearTimeout rid s)
                in if truthy (property response ''error'')
                   then settle rid (Rejected (McpError
                          (case property response ''error'' of
                             None \<Rightarrow> None | Some e \<Rightarrow> property e ''message''))) s1
                   else settle rid (Resolved (property response ''result'')) s1)
           | None \<Rightarrow> s)
      | None \<Rightarrow> s\<lparr>emitted := emitted s @ [Notification serverName response]\<rparr>)"

definition handle_line ::
  "(jsstring \<Rightarrow> json option) \<Rightarrow> jsstring \<Rightarrow> nat \<Rightarrow> mcp_client \<Rightarrow> jsstring \<Rightarrow> mcp_client" where
  "handle_line parse serverName r s line =
     (let trimmed = trim line
      in if trimmed = [] then s
         else case parse trimmed of
                None \<Rightarrow> s
              | Some response \<Rightarrow> handle_response serverName r response s)"

definition handleServerData ::
  "(jsstring \<Rightarrow> json option) \<Rightarrow> mcp_client \<Rightarrow> jsstring \<Rightarrow> nat list \<Rightarrow> mcp_client" where
  "handleServerData parse s serverName data =
     (case connections s serverName of
        None \<Rightarrow> s
      | Some r \<Rightarrow>
          (let lines = split_nl (buffer (heap s r) @ toString data)
           in foldl (handle_line parse serverName r)
                (update_connection r (\<lambda>c. c\<lparr>buffer := last lines\<rparr>) s)
                (butlast lines)))"

subsection \<open>Process events and disconnection\<close>

text \<open>
  The handlers \<open>connectServer\<close> installs on the subprocess. Both delete whatever
  connection is registered under the name; neither touches its pending requests.
\<close>

definition process_exit :: "mcp_client \<Rightarrow> jsstring \<Rightarrow> int option \<Rightarrow> mcp_client" where
  "process_exit s serverName code =
     s\<lparr>emitted := emitted s @ [ServerExit serverName code],
       connections := (connections s)(serverName := None)\<rparr>"

definition process_error :: "mcp_client \<Rightarrow> jsstring \<Rightarrow> jsstring \<Rightarrow> mcp_client" where
  "process_error s serverName msg =
     s\<lparr>emitted := emitted s @ [ServerError serverName (ProcessError msg)],
       connections := (connections s)(serverName := None)\<rparr>"

definition disconnectServer :: "mcp_client \<Rightarrow> jsstring \<Rightarrow> mcp_client" where
  "disconnectServer s serverName =
     (case connections s serverName of
        None \<Rightarrow> s
      | Some r \<Rightarrow>
          (let s1 = foldl (\<lambda>s' rid. settle rid (Rejected ServerDisconnected) (clearTimeout rid s'))
                      s (pendingRequests (heap s r));
               s2 = update_connection r
                      (\<lambda>c. c\<lparr>process := (process c)\<lparr>stdin_ended := True, killed := True\<rparr>\<rparr>) s1
           in s2\<lparr>connections := (connections s2)(serverName := None)\<rparr>))"

subsection \<open>connectServer and connectAll\<close>

definition isConnected :: "mcp_client \<Rightarrow> jsstring \<Rightarrow> bool" where
  "isConnected s serverName =
     (case connections s serverName of None \<Rightarrow> False | Some r \<Rightarrow> ready (heap s r))"

text \<open>
  The start of \<open>connectServer\<close>, up to \<open>this.connections.set\<close>: a new subprocess and
  a new connection object, registered under the name in place of any other.
\<close>

definition spawn :: "mcp_client \<Rightarrow> jsstring \<Rightarrow> server_config \<Rightarrow> mcp_client" where
  "spawn s serverName cfg =
     s\<lparr>next_ref := next_ref s + 1,
       heap := (heap s)(next_ref s := new_connection (Some cfg)),
       connections := (connections s)(serverName \<mapsto> next_ref s)\<rparr>"

text \<open>
  What a subprocess does with one request: it answers with a result, answers with an
  error, stays silent until the request's timer fires, or is gone: it has ended by the
  time the request is written, and its \<open>exit\<close> event has not been handled yet (a
  subprocess that prints and exits at once is gone for \<open>initialize\<close>, since
  \<open>waitForProcess\<close> resolves on its first output). An answer carries the id of the
  request.
\<close>

datatype reply = Result json | Failure json | Silence | Gone

definition response_object :: "nat \<Rightarrow> reply \<Rightarrow> json option" where
  "response_object rid rep =
     (case rep of
        Result v \<Rightarrow> Some (JObj [(str ''jsonrpc'', JStr (str ''2.0'')), (str ''id'', JNum (int rid)),
                               (str ''result'', v)])
      | Failure e \<Rightarrow> Some (JObj [(str ''jsonrpc'', JStr (str ''2.0'')), (str ''id'', JNum (int rid)),
                                (str ''error'', e)])
      | Silence \<Rightarrow> None
      | Gone \<Rightarrow> None)"

definition await_reply :: "mcp_client \<Rightarrow> jsstring \<Rightarrow> nat \<Rightarrow> reply \<Rightarrow> mcp_client" where
  "await_reply s serverName rid rep =
     timeout_fires
       (case response_object rid rep of
          None \<Rightarrow> s
        | Some response \<Rightarrow>
            (case connections s serverName of
               None \<Rightarrow> s
             | Some r \<Rightarrow> handle_response serverName r response s))
       rid"

text \<open>
  How an asynchronous call ends: it returns (a value or an exception, and the state), its
  promise never settles, or the Node process is terminated while it waits.

  A write to the standard input of a subprocess that has ended fails with \<open>EPIPE\<close>,
  which the stream reports by an \<open>error\<close> event of its own. \<open>connectServer\<close> puts
  listeners on the standard output, the standard error and the process, and none on the
  standard input; \<open>sendRequest\<close> writes without a callback. So the event is an uncaught
  exception: it terminates the Node process and every call in progress with it.
\<close>

datatype 'a completion = Returns 'a | Pending | Terminated jsstring

definition broken_pipe :: jsstring where
  "broken_pipe = str ''write EPIPE''"

text \<open>
  \<open>await this.sendRequest(...)\<close>: the first call of \<open>resolve\<close> or \<open>reject\<close> settles
  the promise.
\<close>

definition request ::
  "mcp_client \<Rightarrow> jsstring \<Rightarrow> jsstring \<Rightarrow> json \<Rightarrow> reply
     \<Rightarrow> ((mcp_error + json option) \<times> mcp_client) completion" where
  "request s serverName method params rep =
     (case sendRequest s serverName method params of
        Inl e \<Rightarrow> Returns (Inl e, s)
      | Inr (rid, s1) \<Rightarrow>
          if rep = Gone then Terminated broken_pipe
          else
            (let s2 = await_reply s1 serverName rid rep
             in case map_of (settled s2) rid of
                  None \<Rightarrow> Pending
                | Some (Resolved v) \<Rightarrow> Returns (Inr v, s2)
                | Some (Rejected e) \<Rightarrow> Returns (Inl e, s2)))"

text \<open>
  What the subprocess of one server does while \<open>connectServer\<close> runs: the spawn fails
  (the \<open>error\<close> event), it exits without output and the exit is handled before the
  handshake, or it gets to the handshake and replies to \<open>initialize\<close> and to
  \<open>tools/list\<close>.
\<close>

datatype behaviour =
    SpawnFails jsstring
  | ExitsEarly "int option"
  | Runs reply reply

definition initialize_params :: json where
  "initialize_params =
     JObj [(str ''protocolVersion'', JStr (str ''2024-11-05'')),
           (str ''capabilities'', JObj []),
           (str ''clientInfo'', JObj [(str ''name'', JStr (str ''try-agent'')),
                                     (str ''version'', JStr (str ''1.0.0''))])]"

text \<open>\<open>result?.tools || []\<close>\<close>

definition tools_of :: "json option \<Rightarrow> json" where
  "tools_of result =
     (case result of
        None \<Rightarrow> JArr []
      | Some v \<Rightarrow>
          (case property v ''tools'' of
             None \<Rightarrow> JArr []
           | Some t \<Rightarrow> if truthy (Some t) then t else JArr []))"

text \<open>
  \<open>initialize\<close> and \<open>listTools\<close>, then the connection object of this call is marked
  ready. No step has a \<open>catch\<close>: a failure leaves the state as it is at that point.
\<close>

definition handshake ::
  "mcp_client \<Rightarrow> jsstring \<Rightarrow> nat \<Rightarrow> reply \<Rightarrow> reply
     \<Rightarrow> ((mcp_error + json) \<times> mcp_client) completion" where
  "handshake s serverName r init_reply list_reply =
     (case request s serverName (str ''initialize'') initialize_params init_reply of
        Pending \<Rightarrow> Pending
      | Terminated x \<Rightarrow> Terminated x
      | Returns (Inl e, s2) \<Rightarrow> Returns (Inl e, s2)
      | Returns (Inr _, s2) \<Rightarrow>
          (case request
                  (sendNotification s2 serverName (str ''notifications/initialized'') (JObj []))
                  serverName (str ''tools/list'') (JObj []) list_reply of
             Pending \<Rightarrow> Pending
           | Terminated x \<Rightarrow> Terminated x
           | Returns (Inl e, s4) \<Rightarrow> Returns (Inl e, s4)
           | Returns (Inr result, s4) \<Rightarrow>
               (let s5 = update_connection r
                           (\<lambda>c. c\<lparr>tools := tools_of result, ready := True\<rparr>) s4
                in Returns (Inr (tools_of result),
                         s5\<lparr>emitted := emitted s5 @ [ServerReady serverName (tools_of result)]\<rparr>))))"

definition connectServer ::
  "mcp_client \<Rightarrow> jsstring \<Rightarrow> behaviour \<Rightarrow> ((mcp_error + json) \<times> mcp_client) completion" where
  "connectServer s serverName b =
     (case map_of (config s) serverName of
        None \<Rightarrow> Returns (Inl (NotInConfig serverName), s)
      | Some cfg \<Rightarrow>
          (case (if isConnected s serverName then connections s serverName else None) of
             Some r \<Rightarrow> Returns (Inr (tools (heap s r)), s)
           | None \<Rightarrow>
               (case b of
                  SpawnFails msg \<Rightarrow>
                    Returns (Inl (FailedToStart msg),
                          process_error (spawn s serverName cfg) serverName msg)
                | ExitsEarly code \<Rightarrow>
                    handshake (process_exit (spawn s serverName cfg) serverName code)
                      serverName (next_ref s) Silence Silence
                | Runs init_reply list_reply \<Rightarrow>
                    handshake (spawn s serverName cfg) serverName (next_ref s)
                      init_reply list_reply)))"

text \<open>
  \<open>results.set(name, tools)\<close> on the \<open>Map\<close> that \<open>connectAll\<close> returns, and its loop:
  the \<open>catch\<close> takes what \<open>connectServer\<close> throws, and nothing else.
\<close>

fun map_set :: "'k \<Rightarrow> 'v \<Rightarrow> ('k \<times> 'v) list \<Rightarrow> ('k \<times> 'v) list" where
  "map_set k v [] = [(k, v)]"
| "map_set k v (p # ps) = (if fst p = k then (k, v) # ps else p # map_set k v ps)"

fun connect_each ::
  "(jsstring \<Rightarrow> behaviour) \<Rightarrow> jsstring list \<Rightarrow> (jsstring \<times> json) list \<Rightarrow> mcp_client
     \<Rightarrow> ((jsstring \<times> json) list \<times> mcp_client) completion" where
  "connect_each B [] results s = Returns (results, s)"
| "connect_each B (n # ns) results s =
     (case connectServer s n (B n) of
        Pending \<Rightarrow> Pending
      | Terminated x \<Rightarrow> Terminated x
      | Returns (Inr found, s') \<Rightarrow> connect_each B ns (map_set n found results) s'
      | Returns (Inl e, s') \<Rightarrow>
          connect_each B ns results (s'\<lparr>emitted := emitted s' @ [ServerError n e]\<rparr>))"

definition connectAll ::
  "mcp_client \<Rightarrow> (jsstring \<Rightarrow> behaviour)
     \<Rightarrow> ((jsstring \<times> json) list \<times> mcp_client) completion" where
  "connectAll s B = connect_each B (map fst (config s)) [] s"

subsection \<open>Runs of one client\<close>

text \<open>
  Everything that changes the client's state, one action each: the start of a
  connection, a request, a notification, a chunk of standard output, a timer that
  fires, the exit or error of a subprocess, a disconnection, and the end of
  \<open>connectServer\<close> that marks a connection object ready. A step also gives the ids
  it handed out.
\<close>

datatype action =
    Spawn jsstring
  | Send jsstring jsstring json
  | Notify jsstring jsstring json
  | Data jsstring "nat list"
  | TimerFires nat
  | Exit jsstring "int option"
  | ProcError jsstring jsstring
  | Disconnect jsstring
  | SetReady nat json

fun step :: "(jsstring \<Rightarrow> json option) \<Rightarrow> mcp_client \<Rightarrow> action \<Rightarrow> mcp_client \<times> nat list" where
  "step parse s (Spawn n) =
     (case map_of (config s) n of
        None \<Rightarrow> (s, [])
      | Some cfg \<Rightarrow> if isConnected s n then (s, []) else (spawn s n cfg, []))"
| "step parse s (Send n method params) =
     (case sendRequest s n method params of
        Inl e \<Rightarrow> (s, [])
      | Inr (rid, s') \<Rightarrow> (s', [rid]))"
| "step parse s (Notify n method params) = (sendNotification s n method params, [])"
| "step parse s (Data n bytes) = (handleServerData parse s n bytes, [])"
| "step parse s (TimerFires rid) = (timeout_fires s rid, [])"
| "step parse s (Exit n code) = (process_exit s n code, [])"
| "step parse s (ProcError n msg) = (process_error s n msg, [])"
| "step parse s (Disconnect n) = (disconnectServer s n, [])"
| "step parse s (SetReady r found) =
     (update_connection r (\<lambda>c. c\<lparr>tools := found, ready := True\<rparr>) s, [])"

fun run :: "(jsstring \<Rightarrow> json option) \<Rightarrow> mcp_client \<Rightarrow> action list \<Rightarrow> mcp_client \<times> nat list" where
  "run parse s [] = (s, [])"
| "run parse s (a # as) =
     (case step parse s a of
        (s1, ids1) \<Rightarrow> (case run parse s1 as of (s2, ids2) \<Rightarrow> (s2, ids1 @ ids2)))"

section \<open>Notions used in the statements\<close>

text \<open>The world in which a tool call runs is the one the calls before it have left.\<close>

definition world_after ::
  "(jsstring \<Rightarrow> jsstring + json) \<Rightarrow> (json \<Rightarrow> jsstring) \<Rightarrow> 'w registry \<Rightarrow> 'w
     \<Rightarrow> tool_call list \<Rightarrow> 'w" where
  "world_after parse stringify registry w tcs =
     foldl (\<lambda>w' tc. snd (run_tool_call parse stringify registry w' tc)) w tcs"

definition non_system :: "message list \<Rightarrow> message list" where
  "non_system msgs = filter (\<lambda>m. role m \<noteq> System) msgs"

definition system_turns :: "message list \<Rightarrow> message list" where
  "system_turns msgs = filter (\<lambda>m. role m = System) msgs"

text \<open>The turns \<open>chat\<close> has when it decides on compression.\<close>

definition turns_with ::
  "jsstring \<Rightarrow> agent_state \<Rightarrow> jsstring \<Rightarrow> message list" where
  "turns_with systemPrompt st userMessage =
     (if messages st = [] then [system_message systemPrompt] else messages st)
     @ [user_message userMessage]"

text \<open>
  The lines a chunk completes on the connection object \<open>r\<close>: all the lines of what is
  buffered followed by the decoded chunk, but the last. \<open>line_id\<close> is the \<open>id\<close> a line
  carries, if it parses to a value that has one.
\<close>

definition complete_lines :: "mcp_client \<Rightarrow> nat \<Rightarrow> nat list \<Rightarrow> jsstring list" where
  "complete_lines s r data = butlast (split_nl (buffer (heap s r) @ toString data))"

definition line_id :: "(jsstring \<Rightarrow> json option) \<Rightarrow> jsstring \<Rightarrow> json option" where
  "line_id parse ln =
     (if trim ln = [] then None
      else case parse (trim ln) of None \<Rightarrow> None | Some response \<Rightarrow> property response ''id'')"

text \<open>
  \<open>settled_for\<close>: the outcomes the promise of request \<open>rid\<close> has been settled with, in
  order. \<open>untouched\<close>: from \<open>s\<close> to \<open>s'\<close> nothing has happened to request \<open>rid\<close>: no
  outcome, the same timer or none, pending where it was.
\<close>

definition settled_for :: "nat \<Rightarrow> mcp_client \<Rightarrow> outcome list" where
  "settled_for rid s = map snd (filter (\<lambda>p. fst p = rid) (settled s))"

definition untouched :: "nat \<Rightarrow> mcp_client \<Rightarrow> mcp_client \<Rightarrow> bool" where
  "untouched rid s s' \<longleftrightarrow>
     settled_for rid s' = settled_for rid s
   \<and> map_of (timers s') rid = map_of (timers s) rid
   \<and> (\<forall>r. rid \<in> set (pendingRequests (heap s' r)) \<longleftrightarrow> rid \<in> set (pendingRequests (heap s r)))"

text \<open>
  Following the words of the claim: the values of the lines that parse to a value other than
  \<open>null\<close> with no \<open>id\<close>, in the order of the lines.
\<close>

definition forwarded :: "(jsstring \<Rightarrow> json option) \<Rightarrow> jsstring list \<Rightarrow> json list" where
  "forwarded parse lns =
     concat (map (\<lambda>ln. if trim ln = [] then []
                        else case parse (trim ln) of
                               None \<Rightarrow> []
                             | Some v \<Rightarrow> if v \<noteq> JNull \<and> property v ''id'' = None then [v] else [])
                 lns)"


section \<open>Invariants of the client\<close>

text \<open>
  What every run keeps: an id that is pending, armed or settled has been handed out; an
  id is pending in one connection object at most; the timer of a pending request belongs
  to the connection object that holds the request.
\<close>

definition inv_pending :: "mcp_client \<Rightarrow> bool" where
  "inv_pending s \<longleftrightarrow> (\<forall>r rid. rid \<in> set (pendingRequests (heap s r)) \<longrightarrow> rid \<le> requestId s)"

definition inv_timers :: "mcp_client \<Rightarrow> bool" where
  "inv_timers s \<longleftrightarrow> (\<forall>rid t. (rid, t) \<in> set (timers s) \<longrightarrow> rid \<le> requestId s)"

definition inv_settled :: "mcp_client \<Rightarrow> bool" where
  "inv_settled s \<longleftrightarrow> (\<forall>rid out. (rid, out) \<in> set (settled s) \<longrightarrow> rid \<le> requestId s)"

definition inv_unique :: "mcp_client \<Rightarrow> bool" where
  "inv_unique s \<longleftrightarrow>
     (\<forall>r r' rid. rid \<in> set (pendingRequests (heap s r)) \<longrightarrow>
                  rid \<in> set (pendingRequests (heap s r')) \<longrightarrow> r = r')"

definition inv_closure :: "mcp_client \<Rightarrow> bool" where
  "inv_closure s \<longleftrightarrow>
     (\<forall>r rid t. rid \<in> set (pendingRequests (heap s r)) \<longrightarrow>
                 map_of (timers s) rid = Some t \<longrightarrow> t_conn t = r)"

definition wf :: "mcp_client \<Rightarrow> bool" where
  "wf s \<longleftrightarrow> inv_pending s \<and> inv_timers s \<and> inv_settled s \<and> inv_unique s \<and> inv_closure s"



text \<open>The buffer of a connection object, replaced.\<close>

definition set_buffer :: "nat \<Rightarrow> jsstring \<Rightarrow> mcp_client \<Rightarrow> mcp_client" where
  "set_buffer r b s = update_connection r (\<lambda>c. c\<lparr>buffer := b\<rparr>) s"

subsection \<open>Connecting the servers\<close>

text \<open>
  \<open>reply_value\<close>: the value a request resolves with, given the reply of the
  subprocess, or \<open>None\<close> when it does not resolve (an error object that is falsy
  resolves with \<open>undefined\<close>). \<open>offered_tools\<close>: the tools \<open>connectServer\<close> returns for a
  subprocess that behaves so, or \<open>None\<close> when the connection fails. \<open>breaks\<close>: the
  subprocess is gone when one of the two requests is written to it. \<open>stops\<close>: the
  subprocess never ran or has exited before the handshake. \<open>known_tools\<close>: the tools
  of a server that is connected already; \<open>connectServer\<close> returns them and starts
  nothing. \<open>expected_tools\<close>: the tools \<open>connectAll\<close> is to return for a server.
  \<open>frame\<close> and \<open>outside\<close> say what a request on the connection object \<open>r\<close>, and what
  connecting the server \<open>n\<close>, leave as they are. \<open>inv_alloc\<close>: the registered
  connection objects have been allocated.
\<close>

definition reply_value :: "reply \<Rightarrow> json option option" where
  "reply_value rep =
     (case rep of
        Result v \<Rightarrow> Some (Some v)
      | Failure e \<Rightarrow> if truthy (Some e) then None else Some None
      | Silence \<Rightarrow> None
      | Gone \<Rightarrow> None)"

definition breaks :: "behaviour \<Rightarrow> bool" where
  "breaks b =
     (case b of
        Runs init_reply list_reply \<Rightarrow>
          init_reply = Gone \<or> (reply_value init_reply \<noteq> None \<and> list_reply = Gone)
      | _ \<Rightarrow> False)"

definition stops :: "behaviour \<Rightarrow> bool" where
  "stops b = (case b of SpawnFails msg \<Rightarrow> True | ExitsEarly code \<Rightarrow> True | _ \<Rightarrow> False)"

definition known_tools :: "mcp_client \<Rightarrow> jsstring \<Rightarrow> json option" where
  "known_tools s n =
     (case connections s n of
        None \<Rightarrow> None
      | Some r \<Rightarrow> if ready (heap s r) then Some (tools (heap s r)) else None)"


definition offered_tools :: "behaviour \<Rightarrow> json option" where
  "offered_tools b =
     (case b of
        Runs init_reply list_reply \<Rightarrow>
          (case reply_value init_reply of
             None \<Rightarrow> None
           | Some _ \<Rightarrow>
               (case reply_value list_reply of
                  None \<Rightarrow> None
                | Some result \<Rightarrow> Some (tools_of result)))
      | _ \<Rightarrow> None)"

definition expected_tools :: "mcp_client \<Rightarrow> (jsstring \<Rightarrow> behaviour) \<Rightarrow> jsstring \<Rightarrow> json option" where
  "expected_tools s B n =
     (case known_tools s n of Some t \<Rightarrow> Some t | None \<Rightarrow> offered_tools (B n))"

definition frame :: "nat \<Rightarrow> mcp_client \<Rightarrow> mcp_client \<Rightarrow> bool" where
  "frame r s s' \<longleftrightarrow>
     connections s' = connections s \<and> config s' = config s \<and> next_ref s' = next_ref s
   \<and> emitted s' = emitted s \<and> (\<forall>r'. r' \<noteq> r \<longrightarrow> heap s' r' = heap s r')
   \<and> ready (heap s' r) = ready (heap s r) \<and> tools (heap s' r) = tools (heap s r)
   \<and> killed (process (heap s' r)) = killed (process (heap s r))"

definition inv_alloc :: "mcp_client \<Rightarrow> bool" where
  "inv_alloc s \<longleftrightarrow> (\<forall>k r. connections s k = Some r \<longrightarrow> r < next_ref s)"

definition outside :: "jsstring \<Rightarrow> nat \<Rightarrow> mcp_client \<Rightarrow> mcp_client \<Rightarrow> bool" where
  "outside n r s s' \<longleftrightarrow>
     config s' = config s
   \<and> (\<forall>k. k \<noteq> n \<longrightarrow> connections s' k = connections s k)
   \<and> (\<forall>r'. r' \<noteq> r \<longrightarrow> heap s' r' = heap s r')
   \<and> (\<exists>new. emitted s' = emitted s @ new)"

section \<open>Inputs of the examples\<close>

definition test_parse :: "jsstring \<Rightarrow> jsstring + json" where
  "test_parse t = (if t = str ''{}'' then Inr (JObj []) else Inl (str ''Unexpected token''))"

definition test_stringify :: "json \<Rightarrow> jsstring" where
  "test_stringify v = (case property v ''error'' of Some (JStr m) \<Rightarrow> m | _ \<Rightarrow> [])"

text \<open>Two tools; the world is the list of the tools that have run.\<close>

definition echo_tool :: "(jsstring list) executor" where
  "echo_tool a w = (Inr (str ''done''), w @ [str ''echo''])"

definition boom_tool :: "(jsstring list) executor" where
  "boom_tool a w = (Inl (new_Error (str ''exploded'')), w @ [str ''boom''])"

text \<open>A tool whose promise rejects with no reason, as \<open>Promise.reject()\<close> does.\<close>

definition void_tool :: "(jsstring list) executor" where
  "void_tool a w = (Inl Undefined, w @ [str ''void''])"

definition test_registry :: "(jsstring list) registry" where
  "test_registry =
     [str ''echo'' \<mapsto> echo_tool, str ''boom'' \<mapsto> boom_tool, str ''void'' \<mapsto> void_tool]"

definition test_calls :: "tool_call list" where
  "test_calls =
     [\<lparr>tc_id = str ''c1'', tc_name = str ''echo'', tc_arguments = str ''{}''\<rparr>,
      \<lparr>tc_id = str ''c2'', tc_name = str ''boom'', tc_arguments = str ''{}''\<rparr>,
      \<lparr>tc_id = str ''c3'', tc_name = str ''echo'', tc_arguments = str ''{''\<rparr>]"

definition void_calls :: "tool_call list" where
  "void_calls =
     [\<lparr>tc_id = str ''c1'', tc_name = str ''echo'', tc_arguments = str ''{}''\<rparr>,
      \<lparr>tc_id = str ''c2'', tc_name = str ''void'', tc_arguments = str ''{}''\<rparr>,
      \<lparr>tc_id = str ''c3'', tc_name = str ''echo'', tc_arguments = str ''{}''\<rparr>]"

definition no_calls_length :: "tool_call list \<Rightarrow> nat" where
  "no_calls_length tcs = 0"

definition plain_backend :: backend where
  "plain_backend msgs = Inr \<lparr>r_content = Some (str ''hello''), r_tool_calls = None\<rparr>"

text \<open>A backend that asks for the three calls of \<open>void_calls\<close>.\<close>

definition calling_backend :: backend where
  "calling_backend msgs = Inr \<lparr>r_content = None, r_tool_calls = Some void_calls\<rparr>"

definition failing_backend :: backend where
  "failing_backend msgs = Inl (str ''network error'')"

definition summary_backend :: backend where
  "summary_backend msgs = Inr \<lparr>r_content = Some (str ''S''), r_tool_calls = None\<rparr>"

definition silent_backend :: backend where
  "silent_backend msgs = Inr \<lparr>r_content = None, r_tool_calls = None\<rparr>"

definition fresh_agent :: agent_state where
  "fresh_agent = \<lparr>messages = [], iterations = 0, isRunning = False\<rparr>"

definition tiny_config :: compress_config where
  "tiny_config = \<lparr>maxTokens = 1, targetTokens = 1, keepRecentMessages = 4\<rparr>"

text \<open>A conversation that has been compressed once: two system turns, five others.\<close>

definition test_conversation :: "message list" where
  "test_conversation =
     [system_message (str ''sys''), summary_message (str ''old''),
      user_message (str ''q1''), assistant_message (str ''a1'') None,
      user_message (str ''q2''), assistant_message (str ''a2'') None,
      user_message (str ''q3'')]"

definition compressed_agent :: agent_state where
  "compressed_agent = \<lparr>messages = test_conversation, iterations = 0, isRunning = False\<rparr>"

definition long_text :: jsstring where
  "long_text = replicate 72000 97"

text \<open>
  \<open>JSON.parse\<close> on the lines the examples use:
  \<^verbatim>\<open>{"id":7}\<close>, \<^verbatim>\<open>{"a":"X"}\<close> with U+00E9 for X, the same with two U+FFFD for X,
  \<^verbatim>\<open>{"id":1,"result":true}\<close>, \<^verbatim>\<open>{"id":2,"result":true}\<close> and \<^verbatim>\<open>null\<close>.
\<close>

definition test_json :: "jsstring \<Rightarrow> json option" where
  "test_json t =
     (if t = [123, 34, 105, 100, 34, 58, 55, 125] then Some (JObj [(str ''id'', JNum 7)])
      else if t = [123, 34, 97, 34, 58, 34, 233, 34, 125]
        then Some (JObj [(str ''a'', JStr [233])])
      else if t = [123, 34, 97, 34, 58, 34, 65533, 65533, 34, 125]
        then Some (JObj [(str ''a'', JStr [65533, 65533])])
      else if t = [123, 34, 105, 100, 34, 58, 49, 44, 34, 114, 101, 115, 117, 108, 116, 34, 58,
                   116, 114, 117, 101, 125]
        then Some (JObj [(str ''id'', JNum 1), (str ''result'', JBool True)])
      else if t = [123, 34, 105, 100, 34, 58, 50, 44, 34, 114, 101, 115, 117, 108, 116, 34, 58,
                   116, 114, 117, 101, 125]
        then Some (JObj [(str ''id'', JNum 2), (str ''result'', JBool True)])
      else if t = [110, 117, 108, 108] then Some JNull
      else None)"

definition test_server :: server_config where
  "test_server = \<lparr>command = str ''node'', args = [str ''server.js''], env = []\<rparr>"

definition two_servers :: "(jsstring \<times> server_config) list" where
  "two_servers = [(str ''a'', test_server), (str ''b'', test_server)]"

definition test_run :: "action list" where
  "test_run =
     [Spawn (str ''a''), Send (str ''a'') (str ''tools/call'') (JObj []),
      Spawn (str ''b''), Send (str ''b'') (str ''tools/call'') (JObj []),
      Send (str ''a'') (str ''tools/call'') (JObj [])]"

definition test_state :: mcp_client where
  "test_state = fst (run test_json (new_client two_servers) test_run)"

definition reply_2 :: json where
  "reply_2 = JObj [(str ''id'', JNum 2), (str ''result'', JBool True)]"

definition started :: mcp_client where
  "started = spawn (new_client two_servers) (str ''a'') test_server"


text \<open>Chunks of standard output, as bytes.\<close>

definition id7_line :: "nat list" where
  "id7_line = [123, 34, 105, 100, 34, 58, 55, 125, 10]"

definition reply_1_line :: "nat list" where
  "reply_1_line = [123, 34, 105, 100, 34, 58, 49, 44, 34, 114, 101, 115, 117, 108, 116, 34, 58,
                   116, 114, 117, 101, 125, 10]"

definition reply_2_line :: "nat list" where
  "reply_2_line = [123, 34, 105, 100, 34, 58, 50, 44, 34, 114, 101, 115, 117, 108, 116, 34, 58,
                   116, 114, 117, 101, 125, 10]"

definition null_line :: "nat list" where
  "null_line = [110, 117, 108, 108, 10]"

text \<open>
  One chunk with three lines: \<^verbatim>\<open>{"id":7}\<close> and twice the answer to request 2. Another
  with a notification, \<^verbatim>\<open>{"id":7}\<close> and \<^verbatim>\<open>null\<close>.
\<close>

definition accent_line :: "nat list" where
  "accent_line = [123, 34, 97, 34, 58, 34, 195, 169, 34, 125, 10]"

definition burst :: "nat list" where
  "burst = id7_line @ reply_2_line @ reply_2_line"


definition accent_head :: "nat list" where
  "accent_head = [123, 34, 97, 34, 58, 34, 195]"

definition accent_tail :: "nat list" where
  "accent_tail = [169, 34, 125, 10]"



definition called :: mcp_client where
  "called = (case callTool started (str ''a'') (str ''echo'') (JObj []) of
               Inl e \<Rightarrow> started | Inr (rid, s') \<Rightarrow> s')"

text \<open>Three servers of which one cannot be started, and one server that never answers.\<close>

definition three_servers :: "(jsstring \<times> server_config) list" where
  "three_servers = [(str ''a'', test_server), (str ''b'', test_server), (str ''c'', test_server)]"

definition echo_tools :: json where
  "echo_tools = JArr [JObj [(str ''name'', JStr (str ''echo''))]]"

definition healthy :: behaviour where
  "healthy = Runs (Result (JObj [])) (Result (JObj [(str ''tools'', echo_tools)]))"

definition flaky :: "jsstring \<Rightarrow> behaviour" where
  "flaky n = (if n = str ''b'' then SpawnFails (str ''ENOENT'') else healthy)"

definition after_flaky :: mcp_client where
  "after_flaky = (case connectAll (new_client three_servers) flaky of
                    Returns (results, s') \<Rightarrow> s' | _ \<Rightarrow> new_client three_servers)"

text \<open>Three servers of which the second prints a line and exits at once.\<close>

definition fleeting :: "jsstring \<Rightarrow> behaviour" where
  "fleeting n = (if n = str ''b'' then Runs Gone Silence else healthy)"

definition one_server :: "(jsstring \<times> server_config) list" where
  "one_server = [(str ''a'', test_server)]"

definition mute :: "jsstring \<Rightarrow> behaviour" where
  "mute n = Runs Silence Silence"

definition after_mute :: mcp_client where
  "after_mute = (case connectAll (new_client one_server) mute of
                   Returns (results, s') \<Rightarrow> s' | _ \<Rightarrow> new_client one_server)"

text \<open>A request is pending when the subprocess of its server exits.\<close>

definition exit_run :: "action list" where
  "exit_run =
     [Spawn (str ''a''), Send (str ''a'') (str ''tools/call'') (JObj []),
      Exit (str ''a'') None]"

definition exited :: mcp_client where
  "exited = fst (run test_json (new_client two_servers) exit_run)"

definition respawn_run :: "action list" where
  "respawn_run =
     [Spawn (str ''a''), Send (str ''a'') (str ''initialize'') (JObj []),
      Spawn (str ''a''), Send (str ''a'') (str ''initialize'') (JObj [])]"

definition respawned :: mcp_client where
  "respawned = fst (run test_json (new_client two_servers) respawn_run)"

section \<open>Properties of the orchestration loop\<close>

lemmas msg_defs = system_message_def summary_message_def user_message_def
  assistant_message_def str_def summary_header_def

lemma short_conversation_fits:
  "\<not> needsCompression DEFAULT_CONFIG L [system_message (str ''sys''), user_message (str ''hi'')]"
  by (simp add: needsCompression_def estimateTokens_def totalChars_def DEFAULT_CONFIG_def
        msg_defs)

text \<open>
  C7. With \<open>maxIterations = 1\<close> and a backend whose first response is the plain
  answer \<open>hello\<close>, the loop appends the assistant turn and stops, and \<open>chat\<close> still
  returns the "max iterations reached" message: the test after the loop reads the
  counter, not \<open>isRunning\<close>. The claim says the message is never returned when a plain
  answer was produced within the budget.
\<close>

theorem chat_plain_answer_on_last_iteration:
  "chat parse stringify L registry plain_backend 1 (str ''sys'') fresh_agent w (str ''hi'')
     = (Inr max_iterations_message,
        \<lparr>messages = [system_message (str ''sys''), user_message (str ''hi''),
                      assistant_message (str ''hello'') None],
         iterations = 1, isRunning = False\<rparr>, w)"
  using short_conversation_fits [of L]
  by (simp add: chat_def fresh_agent_def react_loop.simps plain_backend_def or_empty_def)

text \<open>One more iteration in the budget and the same answer is returned.\<close>

lemma chat_plain_answer_before_last_iteration:
  "fst (chat parse stringify L registry plain_backend 2 (str ''sys'') fresh_agent w (str ''hi''))
     = Inr (str ''hello'')"
  using short_conversation_fits [of L]
  by (simp add: chat_def fresh_agent_def react_loop.simps plain_backend_def or_empty_def)

subsection \<open>Tool calls of one response\<close>

lemma world_after_snoc:
  "world_after P S T w (cs @ [c])
     = snd (run_tool_call P S T (world_after P S T w cs) c)"
  by (simp add: world_after_def)

lemma world_after_take_Suc:
  "k < length cs \<Longrightarrow>
     world_after P S T w (take (Suc k) cs)
       = snd (run_tool_call P S T (world_after P S T w (take k cs)) (cs ! k))"
  by (simp add: take_Suc_conv_app_nth world_after_snoc)

text \<open>
  As long as no exception has left the \<open>catch\<close>, the loop has appended one tool turn per
  call, in the order of the calls, each with the id of its call and the result of running
  it in the world the calls before it have left.
\<close>

lemma tool_loop_prefix:
  assumes "k \<le> length cs"
    and "\<forall>i<k. \<exists>result.
           fst (run_tool_call P S T (world_after P S T w (take i cs)) (cs ! i)) = Inr result"
  shows "\<exists>new. tool_loop P S T msgs w cs
             = tool_loop P S T (msgs @ new) (world_after P S T w (take k cs)) (drop k cs)
         \<and> length new = k
         \<and> (\<forall>i<k. role (new ! i) = Tool
                 \<and> tool_call_id (new ! i) = Some (tc_id (cs ! i))
                 \<and> fst (run_tool_call P S T (world_after P S T w (take i cs)) (cs ! i))
                     = Inr (content (new ! i)))"
  using assms
proof (induction k)
  case 0
  show ?case by (simp add: world_after_def)
next
  case (Suc k)
  have k: "k < length cs" using Suc.prems(1) by simp
  obtain new where
    eq: "tool_loop P S T msgs w cs
           = tool_loop P S T (msgs @ new) (world_after P S T w (take k cs)) (drop k cs)"
    and len: "length new = k"
    and nth: "\<forall>i<k. role (new ! i) = Tool
                 \<and> tool_call_id (new ! i) = Some (tc_id (cs ! i))
                 \<and> fst (run_tool_call P S T (world_after P S T w (take i cs)) (cs ! i))
                     = Inr (content (new ! i))"
    using Suc.IH Suc.prems by force
  let ?w = "world_after P S T w (take k cs)"
  obtain result where res: "fst (run_tool_call P S T ?w (cs ! k)) = Inr result"
    using Suc.prems(2) by blast
  then have rt: "run_tool_call P S T ?w (cs ! k)
                   = (Inr result, world_after P S T w (take (Suc k) cs))"
    using world_after_take_Suc [OF k, of P S T w] by (simp add: prod_eq_iff)
  have dr: "drop k cs = cs ! k # drop (Suc k) cs" using k by (simp add: Cons_nth_drop_Suc)
  let ?m = "tool_message (cs ! k) result"
  have e1: "tool_loop P S T msgs w cs
           = tool_loop P S T (msgs @ (new @ [?m])) (world_after P S T w (take (Suc k) cs))
               (drop (Suc k) cs)"
    by (simp add: eq dr rt)
  have e2: "length (new @ [?m]) = Suc k" using len by simp
  have e3: "\<forall>i<Suc k. role ((new @ [?m]) ! i) = Tool
                 \<and> tool_call_id ((new @ [?m]) ! i) = Some (tc_id (cs ! i))
                 \<and> fst (run_tool_call P S T (world_after P S T w (take i cs)) (cs ! i))
                     = Inr (content ((new @ [?m]) ! i))"
  proof (intro allI impI)
    fix i assume "i < Suc k"
    then consider "i < k" | "i = k" by force
    then show "role ((new @ [?m]) ! i) = Tool
                 \<and> tool_call_id ((new @ [?m]) ! i) = Some (tc_id (cs ! i))
                 \<and> fst (run_tool_call P S T (world_after P S T w (take i cs)) (cs ! i))
                     = Inr (content ((new @ [?m]) ! i))"
    proof cases
      case 1
      then show ?thesis using nth len by (simp add: nth_append)
    next
      case 2
      then show ?thesis using len res by (simp add: nth_append tool_message_def)
    qed
  qed
  show ?case using e1 e2 e3 by blast
qed

text \<open>
  Where every thrown value has a \<open>message\<close> to read, that is, no executor rejects with
  \<open>undefined\<close> or \<open>null\<close>, the function returns after one tool turn per call; a call
  whose arguments do not parse, or whose executor throws, has the failure payload in its
  turn.
\<close>

lemma handleToolCalls_all_turns:
  assumes "\<forall>i<length calls. \<exists>result.
             fst (run_tool_call P S T (world_after P S T w (take i calls)) (calls ! i))
               = Inr result"
  shows "\<exists>new.
     handleToolCalls P S T msgs w calls text =
       (None, msgs @ [assistant_message (or_empty text) (Some calls)] @ new,
        world_after P S T w calls)
     \<and> length new = length calls
     \<and> (\<forall>i<length calls.
           role (new ! i) = Tool
         \<and> tool_call_id (new ! i) = Some (tc_id (calls ! i))
         \<and> fst (run_tool_call P S T (world_after P S T w (take i calls)) (calls ! i))
             = Inr (content (new ! i)))"
proof -
  obtain new where
    eq: "tool_loop P S T (msgs @ [assistant_message (or_empty text) (Some calls)]) w calls
           = tool_loop P S T ((msgs @ [assistant_message (or_empty text) (Some calls)]) @ new)
               (world_after P S T w (take (length calls) calls)) (drop (length calls) calls)"
    and len: "length new = length calls"
    and nth: "\<forall>i<length calls. role (new ! i) = Tool
                 \<and> tool_call_id (new ! i) = Some (tc_id (calls ! i))
                 \<and> fst (run_tool_call P S T (world_after P S T w (take i calls)) (calls ! i))
                     = Inr (content (new ! i))"
    using tool_loop_prefix [OF le_refl assms,
            where msgs = "msgs @ [assistant_message (or_empty text) (Some calls)]"]
    by (elim exE conjE) simp
  have "handleToolCalls P S T msgs w calls text =
       (None, msgs @ [assistant_message (or_empty text) (Some calls)] @ new,
        world_after P S T w calls)"
    using eq by (simp add: handleToolCalls_def)
  then show ?thesis using len nth by blast
qed

lemma run_tool_call_parse_failure:
  "P (tc_arguments tc) = Inl e \<Longrightarrow>
     run_tool_call P S T w tc = (Inr (S (failure_payload (Some (JStr e)))), w)"
  by (simp add: run_tool_call_def)

lemma run_tool_call_Error:
  "P (tc_arguments tc) = Inr a \<Longrightarrow> execute T (tc_name tc) a w = (Inl (new_Error e), w1) \<Longrightarrow>
     run_tool_call P S T w tc = (Inr (S (failure_payload (Some (JStr e)))), w1)"
  by (simp add: run_tool_call_def read_message_def new_Error_def property_def)

lemma run_tool_call_nullish:
  "P (tc_arguments tc) = Inr a \<Longrightarrow>
   fst (execute T (tc_name tc) a w) \<in> {Inl Undefined, Inl (Value JNull)} \<Longrightarrow>
     \<exists>e. fst (run_tool_call P S T w tc) = Inl e"
  by (cases "execute T (tc_name tc) a w") (auto simp: run_tool_call_def read_message_def)

text \<open>
  C8. The \<open>catch\<close> of \<open>handleToolCalls\<close> turns a failure into the payload by reading
  \<open>error.message\<close>. When the executor of call \<open>k\<close> rejects with \<open>undefined\<close> or
  \<open>null\<close>, that read throws inside the \<open>catch\<close>, and the exception leaves
  \<open>handleToolCalls\<close>: the assistant turn and the tool turns of the \<open>k\<close> calls before it
  have been appended, call \<open>k\<close> and the calls after it get no tool turn, and the calls
  after it do not run. The claim gives every call its tool turn and lets no exception
  leave the loop.
\<close>

theorem handleToolCalls_nullish_rejection:
  assumes "k < length calls"
    and "\<forall>i<k. \<exists>result.
           fst (run_tool_call P S T (world_after P S T w (take i calls)) (calls ! i))
             = Inr result"
    and "P (tc_arguments (calls ! k)) = Inr a"
    and "fst (execute T (tc_name (calls ! k)) a (world_after P S T w (take k calls)))
           \<in> {Inl Undefined, Inl (Value JNull)}"
  shows "\<exists>e new.
     handleToolCalls P S T msgs w calls text =
       (Some e, msgs @ [assistant_message (or_empty text) (Some calls)] @ new,
        world_after P S T w (take (Suc k) calls))
     \<and> length new = k
     \<and> (\<forall>i<k. role (new ! i) = Tool \<and> tool_call_id (new ! i) = Some (tc_id (calls ! i)))"
proof -
  let ?m0 = "msgs @ [assistant_message (or_empty text) (Some calls)]"
  let ?w = "world_after P S T w (take k calls)"
  obtain new where
    eq: "tool_loop P S T ?m0 w calls = tool_loop P S T (?m0 @ new) ?w (drop k calls)"
    and len: "length new = k"
    and nth: "\<forall>i<k. role (new ! i) = Tool
                 \<and> tool_call_id (new ! i) = Some (tc_id (calls ! i))
                 \<and> fst (run_tool_call P S T (world_after P S T w (take i calls)) (calls ! i))
                     = Inr (content (new ! i))"
    using tool_loop_prefix [OF less_imp_le [OF assms(1)] assms(2), where msgs = ?m0]
    by (elim exE conjE) simp
  obtain e where "fst (run_tool_call P S T ?w (calls ! k)) = Inl e"
    using run_tool_call_nullish [of P "calls ! k" a T ?w S] assms(3,4) by blast
  then have rt: "run_tool_call P S T ?w (calls ! k)
                   = (Inl e, world_after P S T w (take (Suc k) calls))"
    using world_after_take_Suc [OF assms(1), of P S T w] by (simp add: prod_eq_iff)
  have dr: "drop k calls = calls ! k # drop (Suc k) calls"
    using assms(1) by (simp add: Cons_nth_drop_Suc)
  have "handleToolCalls P S T msgs w calls text =
       (Some e, msgs @ [assistant_message (or_empty text) (Some calls)] @ new,
        world_after P S T w (take (Suc k) calls))"
    by (simp add: handleToolCalls_def eq dr rt)
  then show ?thesis using len nth by blast
qed

lemmas tool_eval = world_after_def run_tool_call_def test_parse_def execute_def
  test_registry_def echo_tool_def boom_tool_def void_tool_def str_def read_message_def
  new_Error_def property_def test_stringify_def failure_payload_def cannot_read_def

lemma void_world:
  "world_after test_parse test_stringify test_registry [] (take 0 void_calls) = []"
  "world_after test_parse test_stringify test_registry [] (take (Suc 0) void_calls) = [str ''echo'']"
  "world_after test_parse test_stringify test_registry [] (take (Suc (Suc 0)) void_calls)
     = [str ''echo'', str ''void'']"
  by (simp_all add: void_calls_def tool_eval)

text \<open>
  Three calls of which the second rejects with \<open>undefined\<close>: the first has its tool
  turn, the second and the third have none, and the third tool has not run.
\<close>

theorem handleToolCalls_nullish_rejection_witness:
  "\<exists>e new.
     handleToolCalls test_parse test_stringify test_registry [] [] void_calls None =
       (Some e, [assistant_message [] (Some void_calls)] @ new, [str ''echo'', str ''void''])
     \<and> length new = 1
     \<and> map tool_call_id new = [Some (str ''c1'')]"
proof -
  have k: "(1::nat) < length void_calls" by (simp add: void_calls_def)
  have b: "\<forall>i<1. \<exists>result.
           fst (run_tool_call test_parse test_stringify test_registry
                  (world_after test_parse test_stringify test_registry [] (take i void_calls))
                  (void_calls ! i)) = Inr result"
    by (simp add: void_calls_def tool_eval)
  have a: "test_parse (tc_arguments (void_calls ! 1)) = Inr (JObj [])"
    by (simp add: void_calls_def test_parse_def)
  have x: "fst (execute test_registry (tc_name (void_calls ! 1)) (JObj [])
                  (world_after test_parse test_stringify test_registry [] (take 1 void_calls)))
           \<in> {Inl Undefined, Inl (Value JNull)}"
    by (simp add: void_calls_def tool_eval)
  obtain e new where
    eq: "handleToolCalls test_parse test_stringify test_registry [] [] void_calls None =
       (Some e, [] @ [assistant_message (or_empty None) (Some void_calls)] @ new,
        world_after test_parse test_stringify test_registry [] (take (Suc 1) void_calls))"
    and len: "length new = 1"
    and nth: "\<forall>i<1. role (new ! i) = Tool
                  \<and> tool_call_id (new ! i) = Some (tc_id (void_calls ! i))"
    using handleToolCalls_nullish_rejection [OF k b a x, of "[]" None] by blast
  obtain m0 where new: "new = [m0]" using len by (cases new) auto
  have "tool_call_id m0 = Some (str ''c1'')" using nth new by (simp add: void_calls_def)
  then show ?thesis using eq len new by (simp add: or_empty_def void_world)
qed

text \<open>
  Seen from \<open>chat\<close>: the exception is caught by the \<open>catch\<close> of the loop, and the answer
  is the error. The conversation keeps the assistant turn that asks for three calls and
  has the tool turn of the first only.
\<close>

lemma chat_after_nullish_rejection:
  "chat test_parse test_stringify L test_registry calling_backend 20 (str ''sys'') fresh_agent []
      (str ''hi'')
     = (Inr (error_prefix @ cannot_read ''undefined'' ''message''),
        \<lparr>messages = [system_message (str ''sys''), user_message (str ''hi''),
                      assistant_message [] (Some void_calls),
                      tool_message (void_calls ! 0) (str ''done'')],
         iterations = 1, isRunning = False\<rparr>,
        [str ''echo'', str ''void''])"
  using short_conversation_fits [of L]
  by (simp add: chat_def fresh_agent_def react_loop.simps calling_backend_def or_empty_def
        handleToolCalls_def void_calls_def tool_eval)

text \<open>
  Three calls with failures that have a message: the first runs, the executor of the
  second throws an \<open>Error\<close>, the arguments of the third do not parse. Three tool turns
  follow, in that order, and the two tools that ran did so in the order of the calls.
\<close>

lemma handleToolCalls_example:
  "handleToolCalls test_parse test_stringify test_registry [] [] test_calls None =
     (None,
      [assistant_message [] (Some test_calls),
       tool_message (test_calls ! 0) (str ''done''),
       tool_message (test_calls ! 1) (str ''exploded''),
       tool_message (test_calls ! 2) (str ''Unexpected token'')],
      [str ''echo'', str ''boom''])"
  by (simp add: handleToolCalls_def test_calls_def or_empty_def tool_eval)

section \<open>Properties of the history compactor\<close>

lemma find_take1: "(case find P xs of None \<Rightarrow> [] | Some m \<Rightarrow> [m]) = take 1 (filter P xs)"
  by (induction xs) simp_all

lemma slice_but_last_empty:
  "slice_but_last k xs = [] \<longleftrightarrow> k = 0 \<or> length xs \<le> k"
  by (auto simp: slice_but_last_def)

text \<open>
  C9, as amended. \<open>compress\<close> returns the turns unchanged when the estimate is at or
  below the ceiling, or when the turns that are not system turns number at most
  \<open>K = keepRecentMessages\<close>. Otherwise, for \<open>K > 0\<close> and a summary the backend has
  produced, it returns the first system turn only (if there is one), the synthetic
  system turn with the summary, and the \<open>K\<close> most recent of the other turns.
\<close>

theorem compress_result:
  "(estimateTokens L msgs \<le> maxTokens cfg \<or> length (non_system msgs) \<le> keepRecentMessages cfg
      \<longrightarrow> compress cfg L backend msgs = Inr msgs)
   \<and> (maxTokens cfg < estimateTokens L msgs
        \<and> 0 < keepRecentMessages cfg
        \<and> keepRecentMessages cfg < length (non_system msgs)
        \<and> generateSummary backend
              (take (length (non_system msgs) - keepRecentMessages cfg) (non_system msgs))
            = Inr summary
      \<longrightarrow> compress cfg L backend msgs =
            Inr (take 1 (system_turns msgs) @ [summary_message summary]
                 @ drop (length (non_system msgs) - keepRecentMessages cfg) (non_system msgs))
          \<and> length (drop (length (non_system msgs) - keepRecentMessages cfg) (non_system msgs))
              = keepRecentMessages cfg)"
proof (intro conjI impI)
  assume "estimateTokens L msgs \<le> maxTokens cfg \<or> length (non_system msgs) \<le> keepRecentMessages cfg"
  then show "compress cfg L backend msgs = Inr msgs"
    by (auto simp: compress_def needsCompression_def Let_def slice_but_last_def non_system_def)
next
  assume a: "maxTokens cfg < estimateTokens L msgs
        \<and> 0 < keepRecentMessages cfg
        \<and> keepRecentMessages cfg < length (non_system msgs)
        \<and> generateSummary backend
              (take (length (non_system msgs) - keepRecentMessages cfg) (non_system msgs))
            = Inr summary"
  then have old: "slice_but_last (keepRecentMessages cfg) (non_system msgs)
      = take (length (non_system msgs) - keepRecentMessages cfg) (non_system msgs)"
    and recent: "slice_last (keepRecentMessages cfg) (non_system msgs)
      = drop (length (non_system msgs) - keepRecentMessages cfg) (non_system msgs)"
    and ne: "slice_but_last (keepRecentMessages cfg) (non_system msgs) \<noteq> []"
    by (auto simp: slice_but_last_def slice_last_def)
  show "compress cfg L backend msgs =
            Inr (take 1 (system_turns msgs) @ [summary_message summary]
                 @ drop (length (non_system msgs) - keepRecentMessages cfg) (non_system msgs))"
    using a ne unfolding compress_def needsCompression_def Let_def non_system_def[symmetric]
    by (simp add: old recent find_take1 system_turns_def)
  show "length (drop (length (non_system msgs) - keepRecentMessages cfg) (non_system msgs))
              = keepRecentMessages cfg"
    using a by simp
qed

lemma compress_test_conversation:
  "compress tiny_config no_calls_length summary_backend test_conversation
     = Inr [system_message (str ''sys''), summary_message (str ''S''),
            assistant_message (str ''a1'') None, user_message (str ''q2''),
            assistant_message (str ''a2'') None, user_message (str ''q3'')]"
  by (simp add: compress_def needsCompression_def estimateTokens_def totalChars_def
        tiny_config_def test_conversation_def msg_defs no_calls_length_def
        slice_last_def slice_but_last_def generateSummary_def summary_backend_def Let_def)

text \<open>
  C9 as stated fails on a conversation with two system turns, which is what one
  compression leaves behind: the second compression keeps the first system turn and
  drops the earlier summary.
\<close>

theorem compress_keeps_first_system_turn_only:
  "compress tiny_config no_calls_length summary_backend test_conversation
     \<noteq> Inr (system_turns test_conversation @ [summary_message (str ''S'')]
            @ slice_last 4 (non_system test_conversation))"
  using compress_test_conversation
  by (simp add: system_turns_def non_system_def test_conversation_def msg_defs slice_last_def)

lemma test_estimate:
  "estimateTokens no_calls_length test_conversation = 9"
  by (simp add: estimateTokens_def totalChars_def test_conversation_def msg_defs no_calls_length_def)

lemma test_non_system:
  "non_system test_conversation =
     [user_message (str ''q1''), assistant_message (str ''a1'') None,
      user_message (str ''q2''), assistant_message (str ''a2'') None,
      user_message (str ''q3'')]"
  by (simp add: non_system_def test_conversation_def msg_defs)

lemma test_summary:
  "generateSummary summary_backend msgs = Inr (str ''S'')"
  by (simp add: generateSummary_def summary_backend_def str_def)

theorem compress_result_witness:
  "maxTokens tiny_config < estimateTokens no_calls_length test_conversation
   \<and> 0 < keepRecentMessages tiny_config
   \<and> keepRecentMessages tiny_config < length (non_system test_conversation)
   \<and> compress tiny_config no_calls_length summary_backend test_conversation
       = Inr [system_message (str ''sys''), summary_message (str ''S''),
              assistant_message (str ''a1'') None, user_message (str ''q2''),
              assistant_message (str ''a2'') None, user_message (str ''q3'')]
   \<and> estimateTokens no_calls_length [user_message (str ''q1'')] \<le> maxTokens tiny_config
   \<and> compress tiny_config no_calls_length summary_backend [user_message (str ''q1'')]
       = Inr [user_message (str ''q1'')]"
proof -
  have h: "maxTokens tiny_config < estimateTokens no_calls_length test_conversation
        \<and> 0 < keepRecentMessages tiny_config
        \<and> keepRecentMessages tiny_config < length (non_system test_conversation)
        \<and> generateSummary summary_backend
              (take (length (non_system test_conversation) - keepRecentMessages tiny_config)
                 (non_system test_conversation))
            = Inr (str ''S'')"
    by (simp add: test_estimate test_non_system test_summary tiny_config_def)
  have small: "estimateTokens no_calls_length [user_message (str ''q1'')] \<le> maxTokens tiny_config"
    by (simp add: estimateTokens_def totalChars_def msg_defs no_calls_length_def tiny_config_def)
  have a: "compress tiny_config no_calls_length summary_backend test_conversation =
            Inr (take 1 (system_turns test_conversation) @ [summary_message (str ''S'')]
                 @ drop (length (non_system test_conversation) - keepRecentMessages tiny_config)
                     (non_system test_conversation))"
    using compress_result [of no_calls_length test_conversation tiny_config summary_backend
                              "str ''S''"] h
    by blast
  have b: "compress tiny_config no_calls_length summary_backend [user_message (str ''q1'')]
       = Inr [user_message (str ''q1'')]"
    using compress_result [of no_calls_length "[user_message (str ''q1'')]" tiny_config
                              summary_backend "str ''S''"] small
    by blast
  have c: "take (Suc 0) (system_turns test_conversation) = [system_message (str ''sys'')]"
    by (simp add: system_turns_def test_conversation_def msg_defs)
  show ?thesis
    using h small b a
    by (simp add: c test_non_system tiny_config_def)
qed

lemma compress_backend_fails:
  "compress tiny_config no_calls_length failing_backend test_conversation
     = Inl (str ''network error'')"
  by (simp add: compress_def needsCompression_def estimateTokens_def totalChars_def
        tiny_config_def test_conversation_def msg_defs no_calls_length_def
        slice_last_def slice_but_last_def generateSummary_def failing_backend_def Let_def)

lemma chat_backend_fails:
  "fst (chat test_parse test_stringify no_calls_length test_registry failing_backend 20
            (str ''sys'') compressed_agent [] long_text)
     = Inl (str ''network error'')"
  by (simp add: chat_def compress_def needsCompression_def estimateTokens_def totalChars_def
        DEFAULT_CONFIG_def test_conversation_def msg_defs no_calls_length_def long_text_def
        slice_last_def slice_but_last_def generateSummary_def failing_backend_def Let_def
        compressed_agent_def)

text \<open>
  C10 as stated fails: \<open>generateSummary\<close> and the call of \<open>compress\<close> in \<open>chat\<close> have
  no \<open>catch\<close>, so a backend that throws makes both throw.
\<close>

theorem summary_failure_propagates:
  "compress tiny_config no_calls_length failing_backend test_conversation
     = Inl (str ''network error'')
   \<and> fst (chat test_parse test_stringify no_calls_length test_registry failing_backend 20
            (str ''sys'') compressed_agent [] long_text)
     = Inl (str ''network error'')"
  using compress_backend_fails chat_backend_fails by simp

text \<open>
  C10, as amended. When compression is due and there are turns to fold: a response of
  the backend with no text (\<open>null\<close> or empty) gives the placeholder summary and
  compression completes; an error of the backend is the error of \<open>compress\<close>, and
  an error of \<open>compress\<close> is the error of the \<open>chat\<close> call that asked for it.
\<close>

theorem compress_summary_outcomes:
  "(needsCompression cfg L msgs
      \<and> slice_but_last (keepRecentMessages cfg) (non_system msgs) \<noteq> [] \<longrightarrow>
      (\<forall>response.
          backend (summary_request (slice_but_last (keepRecentMessages cfg) (non_system msgs)))
            = Inr response
          \<and> (r_content response = None \<or> r_content response = Some []) \<longrightarrow>
          compress cfg L backend msgs =
            Inr (take 1 (system_turns msgs) @ [summary_message summary_placeholder]
                 @ slice_last (keepRecentMessages cfg) (non_system msgs)))
      \<and> (\<forall>e.
          backend (summary_request (slice_but_last (keepRecentMessages cfg) (non_system msgs)))
            = Inl e \<longrightarrow>
          compress cfg L backend msgs = Inl e))
   \<and> (\<forall>e. needsCompression DEFAULT_CONFIG L (turns_with systemPrompt st userMessage)
          \<and> compress DEFAULT_CONFIG L backend (turns_with systemPrompt st userMessage) = Inl e
          \<longrightarrow> fst (chat P S L T backend maxIter systemPrompt st w userMessage) = Inl e)"
proof (intro conjI impI allI)
  fix response
  assume a: "needsCompression cfg L msgs
      \<and> slice_but_last (keepRecentMessages cfg) (non_system msgs) \<noteq> []"
    and b: "backend (summary_request (slice_but_last (keepRecentMessages cfg) (non_system msgs)))
            = Inr response
          \<and> (r_content response = None \<or> r_content response = Some [])"
  have "generateSummary backend (slice_but_last (keepRecentMessages cfg) (non_system msgs))
          = Inr summary_placeholder"
    using b by (auto simp: generateSummary_def)
  then show "compress cfg L backend msgs =
            Inr (take 1 (system_turns msgs) @ [summary_message summary_placeholder]
                 @ slice_last (keepRecentMessages cfg) (non_system msgs))"
    using a unfolding compress_def Let_def non_system_def[symmetric]
    by (simp add: find_take1 system_turns_def)
next
  fix e
  assume a: "needsCompression cfg L msgs
      \<and> slice_but_last (keepRecentMessages cfg) (non_system msgs) \<noteq> []"
    and b: "backend (summary_request (slice_but_last (keepRecentMessages cfg) (non_system msgs)))
            = Inl e"
  have "generateSummary backend (slice_but_last (keepRecentMessages cfg) (non_system msgs))
          = Inl e"
    using b by (simp add: generateSummary_def)
  then show "compress cfg L backend msgs = Inl e"
    using a unfolding compress_def Let_def non_system_def[symmetric]
    by simp
next
  fix e
  assume "needsCompression DEFAULT_CONFIG L (turns_with systemPrompt st userMessage)
          \<and> compress DEFAULT_CONFIG L backend (turns_with systemPrompt st userMessage) = Inl e"
  then show "fst (chat P S L T backend maxIter systemPrompt st w userMessage) = Inl e"
    by (simp add: chat_def turns_with_def Let_def)
qed

theorem compress_summary_outcomes_witness:
  "needsCompression tiny_config no_calls_length test_conversation
   \<and> slice_but_last (keepRecentMessages tiny_config) (non_system test_conversation) \<noteq> []
   \<and> compress tiny_config no_calls_length silent_backend test_conversation
       = Inr [system_message (str ''sys''), summary_message summary_placeholder,
              assistant_message (str ''a1'') None, user_message (str ''q2''),
              assistant_message (str ''a2'') None, user_message (str ''q3'')]
   \<and> compress tiny_config no_calls_length failing_backend test_conversation
       = Inl (str ''network error'')
   \<and> needsCompression DEFAULT_CONFIG no_calls_length
        (turns_with (str ''sys'') compressed_agent long_text)
   \<and> fst (chat test_parse test_stringify no_calls_length test_registry failing_backend 20
            (str ''sys'') compressed_agent [] long_text)
       = Inl (str ''network error'')"
proof -
  have n: "needsCompression tiny_config no_calls_length test_conversation"
    by (simp add: needsCompression_def test_estimate tiny_config_def)
  have o: "slice_but_last (keepRecentMessages tiny_config) (non_system test_conversation) \<noteq> []"
    by (simp add: slice_but_last_def test_non_system tiny_config_def)
  have s: "silent_backend (summary_request (slice_but_last (keepRecentMessages tiny_config)
              (non_system test_conversation)))
            = Inr \<lparr>r_content = None, r_tool_calls = None\<rparr>"
    by (simp add: silent_backend_def)
  have f: "failing_backend (summary_request (slice_but_last (keepRecentMessages tiny_config)
              (non_system test_conversation)))
            = Inl (str ''network error'')"
    by (simp add: failing_backend_def)
  have a: "compress tiny_config no_calls_length silent_backend test_conversation =
            Inr (take 1 (system_turns test_conversation) @ [summary_message summary_placeholder]
                 @ slice_last (keepRecentMessages tiny_config) (non_system test_conversation))"
    using compress_summary_outcomes [where cfg = tiny_config and L = no_calls_length
            and msgs = test_conversation and backend = silent_backend, THEN conjunct1] n o s
    by (metis model_response.select_convs(1))
  have b: "compress tiny_config no_calls_length failing_backend test_conversation
       = Inl (str ''network error'')"
    using compress_summary_outcomes [where cfg = tiny_config and L = no_calls_length
            and msgs = test_conversation and backend = failing_backend, THEN conjunct1] n o f
    by blast
  have n2: "needsCompression DEFAULT_CONFIG no_calls_length
        (turns_with (str ''sys'') compressed_agent long_text)"
    by (simp add: needsCompression_def estimateTokens_def totalChars_def turns_with_def
        compressed_agent_def DEFAULT_CONFIG_def test_conversation_def msg_defs
        no_calls_length_def long_text_def)
  have c2: "compress DEFAULT_CONFIG no_calls_length failing_backend
              (turns_with (str ''sys'') compressed_agent long_text) = Inl (str ''network error'')"
    using n2
    by (simp add: compress_def turns_with_def compressed_agent_def Let_def
        DEFAULT_CONFIG_def test_conversation_def msg_defs slice_but_last_def
        generateSummary_def failing_backend_def)
  have c: "fst (chat test_parse test_stringify no_calls_length test_registry failing_backend 20
            (str ''sys'') compressed_agent [] long_text)
       = Inl (str ''network error'')"
    using compress_summary_outcomes [where L = no_calls_length and backend = failing_backend
            and systemPrompt = "str ''sys''" and st = compressed_agent
            and userMessage = long_text and P = test_parse and S = test_stringify
            and T = test_registry and maxIter = 20 and w = "[]", THEN conjunct2] n2 c2
    by blast
  have t: "take (Suc 0) (system_turns test_conversation) = [system_message (str ''sys'')]"
    by (simp add: system_turns_def test_conversation_def msg_defs)
  show ?thesis
    using n o b n2 c a by (simp add: t test_non_system slice_last_def tiny_config_def)
qed

section \<open>Properties of the transport correlator\<close>

lemma clearTimeout_fields [simp]:
  "heap (clearTimeout rid s) = heap s"
  "settled (clearTimeout rid s) = settled s"
  "requestId (clearTimeout rid s) = requestId s"
  "connections (clearTimeout rid s) = connections s"
  "emitted (clearTimeout rid s) = emitted s"
  "config (clearTimeout rid s) = config s"
  "next_ref (clearTimeout rid s) = next_ref s"
  "timers (clearTimeout rid s) = filter (\<lambda>(i, t). i \<noteq> rid) (timers s)"
  by (simp_all add: clearTimeout_def)

lemma settle_fields [simp]:
  "heap (settle rid out s) = heap s"
  "timers (settle rid out s) = timers s"
  "requestId (settle rid out s) = requestId s"
  "connections (settle rid out s) = connections s"
  "emitted (settle rid out s) = emitted s"
  "config (settle rid out s) = config s"
  "next_ref (settle rid out s) = next_ref s"
  "settled (settle rid out s) = settled s @ [(rid, out)]"
  by (simp_all add: settle_def)

lemma update_connection_fields [simp]:
  "heap (update_connection r f s) = (heap s)(r := f (heap s r))"
  "timers (update_connection r f s) = timers s"
  "settled (update_connection r f s) = settled s"
  "requestId (update_connection r f s) = requestId s"
  "connections (update_connection r f s) = connections s"
  "emitted (update_connection r f s) = emitted s"
  "config (update_connection r f s) = config s"
  "next_ref (update_connection r f s) = next_ref s"
  by (simp_all add: update_connection_def)

lemma map_of_filter_key:
  "map_of (filter (\<lambda>(i, t). i \<noteq> k) xs) x = (if x = k then None else map_of xs x)"
  by (induction xs) auto

lemma wf_clearTimeout: "wf s \<Longrightarrow> wf (clearTimeout rid s)"
proof -
  assume w: "wf s"
  have 1: "inv_pending (clearTimeout rid s)" using w by (simp add: wf_def inv_pending_def)
  have 2: "inv_timers (clearTimeout rid s)" using w by (simp add: wf_def inv_timers_def)
  have 3: "inv_settled (clearTimeout rid s)" using w by (simp add: wf_def inv_settled_def)
  have 4: "inv_unique (clearTimeout rid s)" using w by (simp add: wf_def inv_unique_def)
  have 5: "inv_closure (clearTimeout rid s)"
    using w by (simp add: wf_def inv_closure_def map_of_filter_key)
  show ?thesis using 1 2 3 4 5 by (simp add: wf_def)
qed

lemma wf_settle: "wf s \<Longrightarrow> rid \<le> requestId s \<Longrightarrow> wf (settle rid out s)"
proof -
  assume w: "wf s" and le: "rid \<le> requestId s"
  have 1: "inv_pending (settle rid out s)" using w by (simp add: wf_def inv_pending_def)
  have 2: "inv_timers (settle rid out s)" using w by (simp add: wf_def inv_timers_def)
  have 3: "inv_settled (settle rid out s)" using w le by (auto simp add: wf_def inv_settled_def)
  have 4: "inv_unique (settle rid out s)" using w by (simp add: wf_def inv_unique_def)
  have 5: "inv_closure (settle rid out s)" using w by (simp add: wf_def inv_closure_def)
  show ?thesis using 1 2 3 4 5 by (simp add: wf_def)
qed

lemma wf_update_connection:
  assumes w: "wf s"
    and sub: "set (pendingRequests (f (heap s r))) \<subseteq> set (pendingRequests (heap s r))"
  shows "wf (update_connection r f s)"
proof -
  have mem: "\<And>r' rid. rid \<in> set (pendingRequests (((heap s)(r := f (heap s r))) r'))
                \<Longrightarrow> rid \<in> set (pendingRequests (heap s r'))"
    using sub by (auto split: if_splits)
  have 1: "inv_pending (update_connection r f s)"
    using w mem unfolding wf_def inv_pending_def update_connection_fields by blast
  have 2: "inv_timers (update_connection r f s)" using w by (simp add: wf_def inv_timers_def)
  have 3: "inv_settled (update_connection r f s)" using w by (simp add: wf_def inv_settled_def)
  have 4: "inv_unique (update_connection r f s)"
    using w mem unfolding wf_def inv_unique_def update_connection_fields by blast
  have 5: "inv_closure (update_connection r f s)"
    using w mem unfolding wf_def inv_closure_def update_connection_fields by blast
  show ?thesis using 1 2 3 4 5 by (simp add: wf_def)
qed

lemma wf_cong:
  "wf s \<Longrightarrow> heap s' = heap s \<Longrightarrow> timers s' = timers s \<Longrightarrow> settled s' = settled s \<Longrightarrow>
     requestId s' = requestId s \<Longrightarrow> wf s'"
  by (simp add: wf_def inv_pending_def inv_timers_def inv_settled_def inv_unique_def inv_closure_def)

lemma wf_new_client: "wf (new_client cfg)"
  by (simp add: wf_def inv_pending_def inv_timers_def inv_settled_def inv_unique_def inv_closure_def new_client_def new_connection_def)

lemma stdin_write_fields [simp]:
  "pendingRequests (stdin_write ln c) = pendingRequests c"
  "buffer (stdin_write ln c) = buffer c"
  "ready (stdin_write ln c) = ready c"
  "tools (stdin_write ln c) = tools c"
  by (simp_all add: stdin_write_def)

lemma sendRequest_Inr:
  "sendRequest s n m p = Inr (rid, s') \<Longrightarrow>
     \<exists>r. connections s n = Some r \<and> rid = requestId s + 1
       \<and> s' = update_connection r
                (\<lambda>c. stdin_write (RpcRequest rid m p)
                       (c\<lparr>pendingRequests :=
                            (if rid \<in> set (pendingRequests c) then pendingRequests c
                             else pendingRequests c @ [rid])\<rparr>))
                (s\<lparr>requestId := rid,
                   timers := timers s @ [(rid, \<lparr>t_conn = r, t_method = m,
                                               t_server = n, t_delay = 60000\<rparr>)]\<rparr>)"
  by (auto simp: sendRequest_def Let_def split: option.splits)

lemma map_of_fresh_key:
  "\<forall>(k, v) \<in> set xs. k \<noteq> x \<Longrightarrow> map_of xs x = None"
  by (induction xs) auto

lemma wf_sendRequest:
  assumes w: "wf s" and eq: "sendRequest s n m p = Inr (rid, s')"
  shows "wf s'"
proof -
  obtain r where r: "connections s n = Some r" and rid: "rid = requestId s + 1"
    and s': "s' = update_connection r
                (\<lambda>c. stdin_write (RpcRequest rid m p)
                       (c\<lparr>pendingRequests :=
                            (if rid \<in> set (pendingRequests c) then pendingRequests c
                             else pendingRequests c @ [rid])\<rparr>))
                (s\<lparr>requestId := rid,
                   timers := timers s @ [(rid, \<lparr>t_conn = r, t_method = m,
                                               t_server = n, t_delay = 60000\<rparr>)]\<rparr>)"
    using sendRequest_Inr [OF eq] by blast
  have ip: "\<And>r' x. x \<in> set (pendingRequests (heap s r')) \<Longrightarrow> x \<le> requestId s"
    using w by (auto simp: wf_def inv_pending_def)
  have it: "\<And>x t. (x, t) \<in> set (timers s) \<Longrightarrow> x \<le> requestId s"
    using w by (auto simp: wf_def inv_timers_def)
  have ist: "\<And>x t. (x, t) \<in> set (settled s) \<Longrightarrow> x \<le> requestId s"
    using w by (auto simp: wf_def inv_settled_def)
  have iu: "\<And>r1 r2 x. x \<in> set (pendingRequests (heap s r1)) \<Longrightarrow>
              x \<in> set (pendingRequests (heap s r2)) \<Longrightarrow> r1 = r2"
    using w by (auto simp: wf_def inv_unique_def)
  have ic: "\<And>r1 x t. x \<in> set (pendingRequests (heap s r1)) \<Longrightarrow>
              map_of (timers s) x = Some t \<Longrightarrow> t_conn t = r1"
    using w by (auto simp: wf_def inv_closure_def)
  have pend: "\<And>r'. set (pendingRequests (heap s' r')) =
                 (if r' = r then insert rid (set (pendingRequests (heap s r)))
                  else set (pendingRequests (heap s r')))"
    by (auto simp: s')
  have req: "requestId s' = rid" by (simp add: s')
  have tim: "timers s' = timers s @ [(rid, \<lparr>t_conn = r, t_method = m,
                                               t_server = n, t_delay = 60000\<rparr>)]"
    by (simp add: s')
  have set: "settled s' = settled s" by (simp add: s')
  have fresh: "map_of (timers s) rid = None"
  proof (rule map_of_fresh_key, clarify)
    fix v assume "(rid, v) \<in> set (timers s)"
    then have "rid \<le> requestId s" using it by blast
    then show False using rid by simp
  qed
  have 1: "inv_pending s'"
    unfolding inv_pending_def req pend using ip rid by (auto split: if_splits intro: le_SucI)
  have 2: "inv_timers s'"
    unfolding inv_timers_def req tim using it rid by (auto intro: le_SucI)
  have 3: "inv_settled s'"
    unfolding inv_settled_def req set using ist rid by (auto intro: le_SucI)
  have notin: "\<And>r'. rid \<notin> set (pendingRequests (heap s r'))"
    using ip rid by fastforce
  have 4: "inv_unique s'"
    unfolding inv_unique_def pend using iu notin by (auto split: if_splits)
  have 5: "inv_closure s'"
    unfolding inv_closure_def
  proof (intro allI impI)
    fix r' x t
    assume a: "x \<in> set (pendingRequests (heap s' r'))" and b: "map_of (timers s') x = Some t"
    show "t_conn t = r'"
    proof (cases "x = rid")
      case True
      then have "r' = r" using a notin by (auto simp: pend split: if_splits)
      moreover have "t = \<lparr>t_conn = r, t_method = m, t_server = n, t_delay = 60000\<rparr>"
        using b True fresh by (simp add: tim map_add_def)
      ultimately show ?thesis by simp
    next
      case False
      then have "x \<in> set (pendingRequests (heap s r'))"
        using a by (auto simp: pend split: if_splits)
      moreover have "map_of (timers s) x = Some t"
        using b False by (simp add: tim map_add_def split: option.splits)
      ultimately show ?thesis using ic by blast
    qed
  qed
  show ?thesis using 1 2 3 4 5 by (simp add: wf_def)
qed

lemma wf_sendNotification: "wf s \<Longrightarrow> wf (sendNotification s n m p)"
  by (auto simp: sendNotification_def intro: wf_update_connection split: option.splits)

lemma wf_emit: "wf s \<Longrightarrow> wf (s\<lparr>emitted := e\<rparr>)"
  by (erule wf_cong) simp_all

lemma wf_connections: "wf s \<Longrightarrow> wf (s\<lparr>connections := c\<rparr>)"
  by (erule wf_cong) simp_all

lemma pending_get_Some:
  "pending_get ps v = Some rid \<Longrightarrow> rid \<in> set ps \<and> v = JNum (int rid)"
  by (auto simp: pending_get_def split: json.splits if_splits)

lemma wf_handle_response: 
  assumes w: "wf s" shows "wf (handle_response n r response s)"
proof -
  have rm: "\<And>rid. rid \<in> set (pendingRequests (heap s r)) \<Longrightarrow>
      wf (update_connection r (\<lambda>c. c\<lparr>pendingRequests := removeAll rid (pendingRequests c)\<rparr>)
            (clearTimeout rid s))"
    by (rule wf_update_connection) (auto intro: wf_clearTimeout w)
  have le: "\<And>rid. rid \<in> set (pendingRequests (heap s r)) \<Longrightarrow> rid \<le> requestId s"
    using w by (auto simp: wf_def inv_pending_def)
  show ?thesis
    unfolding handle_response_def Let_def
    by (auto split: option.splits dest!: pending_get_Some intro!: wf_settle rm wf_emit w
             simp: le)
qed

lemma wf_handle_line: "wf s \<Longrightarrow> wf (handle_line P n r s ln)"
  by (simp add: handle_line_def Let_def wf_handle_response split: option.splits)

lemma wf_foldl_handle_line: "wf s \<Longrightarrow> wf (foldl (handle_line P n r) s lns)"
  by (induction lns arbitrary: s) (simp_all add: wf_handle_line)

lemma wf_handleServerData: "wf s \<Longrightarrow> wf (handleServerData P s n data)"
  by (auto simp: handleServerData_def Let_def split: option.splits
           intro!: wf_foldl_handle_line wf_update_connection)

lemma wf_timeout_fires:
  assumes w: "wf s" shows "wf (timeout_fires s rid)"
proof (cases "map_of (timers s) rid")
  case None
  then show ?thesis using w by (simp add: timeout_fires_def)
next
  case (Some t)
  then have "(rid, t) \<in> set (timers s)" by (rule map_of_SomeD)
  then have le: "rid \<le> requestId s" using w by (auto simp: wf_def inv_timers_def)
  have "wf (update_connection (t_conn t)
               (\<lambda>c. c\<lparr>pendingRequests := removeAll rid (pendingRequests c)\<rparr>)
               (clearTimeout rid s))"
    by (rule wf_update_connection) (auto intro: wf_clearTimeout w)
  then show ?thesis using Some le by (simp add: timeout_fires_def wf_settle)
qed

lemma wf_process_exit: "wf s \<Longrightarrow> wf (process_exit s n code)"
  unfolding process_exit_def by (erule wf_cong) simp_all

lemma wf_process_error: "wf s \<Longrightarrow> wf (process_error s n msg)"
  unfolding process_error_def by (erule wf_cong) simp_all

lemma disconnect_loop:
  "wf s \<Longrightarrow> \<forall>rid \<in> set ids. rid \<le> requestId s \<Longrightarrow>
     wf (foldl (\<lambda>s' rid. settle rid (Rejected ServerDisconnected) (clearTimeout rid s')) s ids)
   \<and> requestId (foldl (\<lambda>s' rid. settle rid (Rejected ServerDisconnected) (clearTimeout rid s')) s ids)
       = requestId s
   \<and> heap (foldl (\<lambda>s' rid. settle rid (Rejected ServerDisconnected) (clearTimeout rid s')) s ids)
       = heap s"
proof (induction ids arbitrary: s)
  case Nil
  then show ?case by simp
next
  case (Cons a ids)
  have "wf (settle a (Rejected ServerDisconnected) (clearTimeout a s))"
    using Cons.prems by (simp add: wf_settle wf_clearTimeout)
  then show ?case using Cons.IH [of "settle a (Rejected ServerDisconnected) (clearTimeout a s)"]
      Cons.prems by simp
qed

lemma wf_disconnectServer:
  assumes w: "wf s" shows "wf (disconnectServer s n)"
proof (cases "connections s n")
  case None
  then show ?thesis using w by (simp add: disconnectServer_def)
next
  case (Some r)
  let ?s1 = "foldl (\<lambda>s' rid. settle rid (Rejected ServerDisconnected) (clearTimeout rid s'))
                      s (pendingRequests (heap s r))"
  have "\<forall>rid \<in> set (pendingRequests (heap s r)). rid \<le> requestId s"
    using w by (auto simp: wf_def inv_pending_def)
  then have "wf ?s1" using disconnect_loop [OF w] by blast
  then have "wf (update_connection r
                      (\<lambda>c. c\<lparr>process := (process c)\<lparr>stdin_ended := True, killed := True\<rparr>\<rparr>) ?s1)"
    by (rule wf_update_connection) simp
  then show ?thesis using Some by (simp add: disconnectServer_def Let_def wf_connections)
qed

lemma wf_spawn: assumes w: "wf s" shows "wf (spawn s n cfg)"
proof -
  have "wf (update_connection (next_ref s) (\<lambda>_. new_connection (Some cfg)) s)"
    using w by (rule wf_update_connection) (simp add: new_connection_def)
  then show ?thesis
    unfolding spawn_def by (rule wf_cong) simp_all
qed

lemma wf_step: "wf s \<Longrightarrow> wf (fst (step P s a))"
proof (cases a)
  case (Send n m p)
  assume "wf s"
  then show ?thesis using Send
    by (auto split: sum.splits dest: wf_sendRequest)
qed (auto simp: wf_spawn wf_sendNotification wf_handleServerData wf_timeout_fires
          wf_process_exit wf_process_error wf_disconnectServer
          intro: wf_update_connection split: option.splits)

lemma wf_run: "wf s \<Longrightarrow> wf (fst (run P s acts))"
proof (induction acts arbitrary: s)
  case Nil
  then show ?case by simp
next
  case (Cons a acts)
  obtain s1 ids1 where st: "step P s a = (s1, ids1)" by fastforce
  obtain s2 ids2 where rn: "run P s1 acts = (s2, ids2)" by fastforce
  have "wf (fst (step P s a))" using Cons.prems by (rule wf_step)
  then have "wf s1" by (simp add: st)
  then have "wf (fst (run P s1 acts))" by (rule Cons.IH)
  then show ?case by (simp add: st rn)
qed

lemma requestId_handle_response [simp]:
  "requestId (handle_response n r response s) = requestId s"
  by (simp add: handle_response_def Let_def split: option.splits)

lemma requestId_handle_line [simp]: "requestId (handle_line P n r s ln) = requestId s"
  by (simp add: handle_line_def Let_def split: option.splits)

lemma requestId_foldl_handle_line [simp]:
  "requestId (foldl (handle_line P n r) s lns) = requestId s"
  by (induction lns arbitrary: s) simp_all

lemma requestId_handleServerData [simp]:
  "requestId (handleServerData P s n data) = requestId s"
  by (simp add: handleServerData_def Let_def split: option.splits)

lemma requestId_timeout_fires [simp]: "requestId (timeout_fires s rid) = requestId s"
  by (simp add: timeout_fires_def split: option.splits)

lemma requestId_disconnect_loop [simp]:
  "requestId (foldl (\<lambda>s' rid. settle rid out (clearTimeout rid s')) s ids) = requestId s"
  by (induction ids arbitrary: s) simp_all

lemma requestId_disconnectServer [simp]: "requestId (disconnectServer s n) = requestId s"
  by (simp add: disconnectServer_def Let_def split: option.splits)

lemma requestId_others [simp]:
  "requestId (sendNotification s n m p) = requestId s"
  "requestId (process_exit s n code) = requestId s"
  "requestId (process_error s n msg) = requestId s"
  "requestId (spawn s n cfg) = requestId s"
  by (simp_all add: sendNotification_def process_exit_def process_error_def spawn_def
        split: option.splits)

lemma step_ids:
  "step P s a = (s', ids) \<Longrightarrow>
     (ids = [] \<and> requestId s' = requestId s)
   \<or> (ids = [requestId s + 1] \<and> requestId s' = requestId s + 1)"
proof (cases a)
  case (Send n m p)
  assume "step P s a = (s', ids)"
  then show ?thesis using Send
    by (auto split: sum.splits dest!: sendRequest_Inr)
qed (auto split: option.splits if_splits)

lemma run_ids:
  "run P s acts = (s', ids) \<Longrightarrow>
     requestId s \<le> requestId s' \<and> sorted_wrt (<) ids
   \<and> (\<forall>i \<in> set ids. requestId s < i \<and> i \<le> requestId s')"
proof (induction acts arbitrary: s s' ids)
  case Nil
  then show ?case by simp
next
  case (Cons a acts)
  obtain s1 ids1 where st: "step P s a = (s1, ids1)" by fastforce
  obtain s2 ids2 where rn: "run P s1 acts = (s2, ids2)" by fastforce
  have eq: "s' = s2" "ids = ids1 @ ids2" using Cons.prems by (simp_all add: st rn)
  have ih: "requestId s1 \<le> requestId s2 \<and> sorted_wrt (<) ids2
            \<and> (\<forall>i \<in> set ids2. requestId s1 < i \<and> i \<le> requestId s2)"
    using Cons.IH [OF rn] .
  from step_ids [OF st] show ?case
  proof
    assume "ids1 = [] \<and> requestId s1 = requestId s"
    then show ?thesis using ih eq by simp
  next
    assume "ids1 = [requestId s + 1] \<and> requestId s1 = requestId s + 1"
    then show ?thesis using ih eq by (auto simp: sorted_wrt_append)
  qed
qed

lemma sendRequest_effect:
  assumes "sendRequest s n m p = Inr (rid, s')"
  shows "\<exists>r. connections s n = Some r
           \<and> (\<forall>r'. set (pendingRequests (heap s' r')) =
                 (if r' = r then insert rid (set (pendingRequests (heap s r)))
                  else set (pendingRequests (heap s r'))))
           \<and> timers s' = timers s @ [(rid, \<lparr>t_conn = r, t_method = m,
                                               t_server = n, t_delay = 60000\<rparr>)]"
    and "rid = requestId s + 1" and "requestId s' = rid" and "settled s' = settled s"
    and "connections s' = connections s" and "emitted s' = emitted s"
    and "config s' = config s" and "next_ref s' = next_ref s"
  using sendRequest_Inr [OF assms] by auto






lemma heap_disconnect_loop [simp]:
  "heap (foldl (\<lambda>s' x. settle x out (clearTimeout x s')) s xs) = heap s"
  by (induction xs arbitrary: s) simp_all



lemma fields_handle_response [simp]:
  "connections (handle_response n r response s) = connections s"
  "next_ref (handle_response n r response s) = next_ref s"
  "config (handle_response n r response s) = config s"
  by (simp_all add: handle_response_def Let_def split: option.splits)

lemma fields_handle_line [simp]:
  "connections (handle_line P n r s ln) = connections s"
  "next_ref (handle_line P n r s ln) = next_ref s"
  "config (handle_line P n r s ln) = config s"
  by (simp_all add: handle_line_def Let_def split: option.splits)

lemma fields_foldl_handle_line [simp]:
  "connections (foldl (handle_line P n r) s lns) = connections s"
  "next_ref (foldl (handle_line P n r) s lns) = next_ref s"
  "config (foldl (handle_line P n r) s lns) = config s"
  by (induction lns arbitrary: s) simp_all

lemma fields_handleServerData [simp]:
  "connections (handleServerData P s n data) = connections s"
  "next_ref (handleServerData P s n data) = next_ref s"
  "config (handleServerData P s n data) = config s"
  by (simp_all add: handleServerData_def Let_def split: option.splits)

lemma fields_timeout_fires [simp]:
  "connections (timeout_fires s rid) = connections s"
  "next_ref (timeout_fires s rid) = next_ref s"
  "config (timeout_fires s rid) = config s"
  by (simp_all add: timeout_fires_def split: option.splits)

lemma fields_disconnect_loop [simp]:
  "connections (foldl (\<lambda>s' x. settle x out (clearTimeout x s')) s xs) = connections s"
  "next_ref (foldl (\<lambda>s' x. settle x out (clearTimeout x s')) s xs) = next_ref s"
  "config (foldl (\<lambda>s' x. settle x out (clearTimeout x s')) s xs) = config s"
  by (induction xs arbitrary: s) simp_all

lemma inv_alloc_step: "inv_alloc s \<Longrightarrow> inv_alloc (fst (step P s a))"
proof (cases a)
  case (Send n m p)
  assume "inv_alloc s"
  then show ?thesis using Send
    by (auto split: sum.splits dest!: sendRequest_Inr simp: inv_alloc_def)
next
  case (Disconnect n)
  assume "inv_alloc s"
  then show ?thesis using Disconnect
    by (auto simp: inv_alloc_def disconnectServer_def Let_def split: option.splits if_splits)
qed (auto simp: inv_alloc_def spawn_def sendNotification_def process_exit_def
          process_error_def less_Suc_eq split: option.splits if_splits)

lemma inv_alloc_run: "inv_alloc s \<Longrightarrow> inv_alloc (fst (run P s acts))"
proof (induction acts arbitrary: s)
  case Nil
  then show ?case by simp
next
  case (Cons a acts)
  obtain s1 ids1 where st: "step P s a = (s1, ids1)" by fastforce
  obtain s2 ids2 where rn: "run P s1 acts = (s2, ids2)" by fastforce
  have "inv_alloc (fst (step P s a))" using Cons.prems by (rule inv_alloc_step)
  then have "inv_alloc s1" by (simp add: st)
  then have "inv_alloc (fst (run P s1 acts))" by (rule Cons.IH)
  then show ?case by (simp add: st rn)
qed

lemma inv_alloc_new_client: "inv_alloc (new_client cfg)"
  by (simp add: inv_alloc_def new_client_def)

subsection \<open>Chunks and lines\<close>

lemma split_nl_nonempty [simp]: "split_nl t \<noteq> []"
  by (induction t) (auto split: list.splits)

lemma split_nl_append:
  "split_nl (u @ v) = butlast (split_nl u) @ split_nl (last (split_nl u) @ v)"
proof (induction u)
  case Nil
  show ?case by simp
next
  case (Cons c cs)
  obtain l0 ls0 where sp: "split_nl cs = l0 # ls0"
    by (cases "split_nl cs") simp_all
  show ?case
  proof (cases "c = 10")
    case True
    then show ?thesis using Cons.IH by simp
  next
    case False
    show ?thesis
    proof (cases ls0)
      case Nil
      then show ?thesis using Cons.IH False sp by simp
    next
      case (Cons l1 ls1)
      then show ?thesis using Cons.IH False sp by simp
    qed
  qed
qed

lemma split_nl_chunks:
  "butlast (split_nl (u @ v)) = butlast (split_nl u) @ butlast (split_nl (last (split_nl u) @ v))"
  "last (split_nl (u @ v)) = last (split_nl (last (split_nl u) @ v))"
  by (simp_all add: split_nl_append [of u v] butlast_append)

lemma set_buffer_twice [simp]: "set_buffer r b2 (set_buffer r b1 s) = set_buffer r b2 s"
  by (simp add: set_buffer_def update_connection_def)

lemma buffer_pending_comm:
  "c\<lparr>buffer := b, pendingRequests := p\<rparr> = c\<lparr>pendingRequests := p, buffer := b\<rparr>"
  by (cases c) simp

lemma handle_response_set_buffer:
  "handle_response n r response (set_buffer r b s) = set_buffer r b (handle_response n r response s)"
  by (rule mcp_client.equality)
     (simp_all add: handle_response_def set_buffer_def update_connection_def clearTimeout_def
        settle_def Let_def buffer_pending_comm split: option.splits)

lemma handle_line_set_buffer:
  "handle_line P n r (set_buffer r b s) ln = set_buffer r b (handle_line P n r s ln)"
  by (simp add: handle_line_def Let_def handle_response_set_buffer split: option.splits)

lemma foldl_handle_line_set_buffer:
  "foldl (handle_line P n r) (set_buffer r b s) lns
     = set_buffer r b (foldl (handle_line P n r) s lns)"
  by (induction lns arbitrary: s) (simp_all add: handle_line_set_buffer)

lemma handleServerData_alt:
  "connections s n = Some r \<Longrightarrow>
     handleServerData P s n data =
       set_buffer r (last (split_nl (buffer (heap s r) @ toString data)))
         (foldl (handle_line P n r) s (butlast (split_nl (buffer (heap s r) @ toString data))))"
  by (simp add: handleServerData_def Let_def foldl_handle_line_set_buffer
        set_buffer_def [symmetric])

lemma buffer_handle_response [simp]:
  "buffer (heap (handle_response n r response s) r') = buffer (heap s r')"
  by (simp add: handle_response_def Let_def split: option.splits)

lemma buffer_handle_line [simp]:
  "buffer (heap (handle_line P n r s ln) r') = buffer (heap s r')"
  by (simp add: handle_line_def Let_def split: option.splits)

lemma buffer_foldl_handle_line [simp]:
  "buffer (heap (foldl (handle_line P n r) s lns) r') = buffer (heap s r')"
  by (induction lns arbitrary: s) simp_all

text \<open>
  Where the cut does not change what the two chunks decode to, feeding them one after
  the other gives the state that feeding them as one chunk gives: the same lines are
  handled in the same order and the same partial line is kept. A cut after ASCII bytes
  is such a cut, in the middle of a line or not.
\<close>

lemma handleServerData_chunks:
  assumes "toString (a @ b) = toString a @ toString b"
  shows "handleServerData P (handleServerData P s n a) n b = handleServerData P s n (a @ b)"
proof (cases "connections s n")
  case None
  then show ?thesis by (simp add: handleServerData_def)
next
  case (Some r)
  let ?u = "buffer (heap s r) @ toString a"
  let ?s1 = "handleServerData P s n a"
  have s1: "?s1 = set_buffer r (last (split_nl ?u))
                    (foldl (handle_line P n r) s (butlast (split_nl ?u)))"
    using handleServerData_alt [OF Some] .
  have c1: "connections ?s1 n = Some r" using Some by simp
  have b1: "buffer (heap ?s1 r) = last (split_nl ?u)"
    by (simp add: s1 set_buffer_def)
  let ?w = "last (split_nl ?u) @ toString b"
  have "handleServerData P ?s1 n b
          = set_buffer r (last (split_nl ?w))
              (foldl (handle_line P n r) ?s1 (butlast (split_nl ?w)))"
    using handleServerData_alt [OF c1, of P b] by (simp add: b1)
  also have "\<dots> = set_buffer r (last (split_nl ?w))
              (foldl (handle_line P n r) s (butlast (split_nl ?u) @ butlast (split_nl ?w)))"
    by (simp add: s1 foldl_handle_line_set_buffer)
  also have "\<dots> = handleServerData P s n (a @ b)"
    using handleServerData_alt [OF Some, of P "a @ b"] assms
      split_nl_chunks [of ?u "toString b"]
    by simp
  finally show ?thesis .
qed

lemma utf8_decode_ascii:
  "\<forall>x \<in> set a. x \<le> 127 \<Longrightarrow>
     utf8_decode 0 0 0 128 191 (a @ b) = a @ utf8_decode 0 0 0 128 191 b"
  by (induction a) simp_all

lemma toString_ascii:
  "\<forall>x \<in> set a. x \<le> 127 \<Longrightarrow> toString (a @ b) = a @ toString b"
  by (simp add: toString_def utf8_decode_ascii)

lemma handleServerData_ascii_chunks:
  assumes "\<forall>x \<in> set a. x \<le> 127"
  shows "handleServerData P (handleServerData P s n a) n b = handleServerData P s n (a @ b)"
proof -
  have "toString a = a" using toString_ascii [OF assms, of "[]"] by (simp add: toString_def)
  then have "toString (a @ b) = toString a @ toString b"
    using toString_ascii [OF assms, of b] by simp
  then show ?thesis by (rule handleServerData_chunks)
qed

text \<open>
  A line that does not parse is dropped, and the lines after it are handled as if it had
  not been there.
\<close>

lemma malformed_line_discarded: "P (trim bad) = None \<Longrightarrow> handle_line P n r s bad = s"
  by (simp add: handle_line_def Let_def)

lemma lines_after_malformed_line:
  "P (trim bad) = None \<Longrightarrow>
     foldl (handle_line P n r) s (before @ bad # after)
       = foldl (handle_line P n r) s (before @ after)"
  by (simp add: malformed_line_discarded)



lemma handle_response_pending:
  assumes "property response ''id'' = Some (JNum (int rid))"
    and "rid \<in> set (pendingRequests (heap s r))"
  shows "handle_response n r response s
           = settle rid
               (if truthy (property response ''error'')
                then Rejected (McpError (case property response ''error'' of
                                           None \<Rightarrow> None | Some e \<Rightarrow> property e ''message''))
                else Resolved (property response ''result''))
               (update_connection r
                  (\<lambda>c. c\<lparr>pendingRequests := removeAll rid (pendingRequests c)\<rparr>)
                  (clearTimeout rid s))"
proof -
  have "response \<noteq> JNull" using assms(1) by (auto simp: property_def)
  moreover have "pending_get (pendingRequests (heap s r)) (JNum (int rid)) = Some rid"
    using assms(2) by (simp add: pending_get_def)
  ultimately show ?thesis using assms(1) by (simp add: handle_response_def Let_def)
qed


lemma set_buffer_fields [simp]:
  "settled (set_buffer r b s) = settled s" "timers (set_buffer r b s) = timers s"
  "emitted (set_buffer r b s) = emitted s" "connections (set_buffer r b s) = connections s"
  "requestId (set_buffer r b s) = requestId s"
  "pendingRequests (heap (set_buffer r b s) r') = pendingRequests (heap s r')"
  "process (heap (set_buffer r b s) r') = process (heap s r')"
  "ready (heap (set_buffer r b s) r') = ready (heap s r')"
  "tools (heap (set_buffer r b s) r') = tools (heap s r')"
  by (simp_all add: set_buffer_def update_connection_def)



text \<open>
  What a chunk does to one request. It leaves the request untouched unless a connection
  is registered under the name, the request is pending on it, and a completed line
  carries its id. In that case the first such line settles the request, and the lines
  after it leave it untouched again.
\<close>

lemma untouched_refl [simp]: "untouched rid s s"
  by (simp add: untouched_def)

lemma untouched_trans: "untouched rid s s1 \<Longrightarrow> untouched rid s1 s2 \<Longrightarrow> untouched rid s s2"
  by (simp add: untouched_def)

lemma untouched_same:
  "settled s' = settled s \<Longrightarrow> timers s' = timers s \<Longrightarrow>
   (\<forall>r. pendingRequests (heap s' r) = pendingRequests (heap s r)) \<Longrightarrow> untouched rid s s'"
  by (simp add: untouched_def settled_for_def)

lemma untouched_other_settled:
  "x \<noteq> rid \<Longrightarrow>
     untouched rid s
       (settle x out
          (update_connection r
             (\<lambda>c. c\<lparr>pendingRequests := removeAll x (pendingRequests c)\<rparr>)
             (clearTimeout x s)))"
  by (auto simp: untouched_def settled_for_def map_of_filter_key)

lemma untouched_handle_response:
  assumes "rid \<notin> set (pendingRequests (heap s r))
           \<or> property response ''id'' \<noteq> Some (JNum (int rid))"
  shows "untouched rid s (handle_response n r response s)"
proof (cases "response = JNull")
  case True
  then show ?thesis by (simp add: handle_response_def)
next
  case notnull: False
  show ?thesis
  proof (cases "property response ''id''")
    case None
    then show ?thesis using notnull
      by (simp add: handle_response_def untouched_same)
  next
    case (Some idv)
    show ?thesis
    proof (cases "pending_get (pendingRequests (heap s r)) idv")
      case None
      then show ?thesis using notnull Some by (simp add: handle_response_def)
    next
      case (Some x)
      note g = this
      have mem: "x \<in> set (pendingRequests (heap s r))" and idv: "idv = JNum (int x)"
        using pending_get_Some [OF g] by simp_all
      have "x \<noteq> rid" using assms mem idv \<open>property response ''id'' = Some idv\<close> by auto
      then show ?thesis
        using notnull \<open>property response ''id'' = Some idv\<close> g untouched_other_settled
        by (simp add: handle_response_def Let_def)
    qed
  qed
qed

lemma untouched_handle_line:
  assumes "rid \<notin> set (pendingRequests (heap s r)) \<or> line_id P ln \<noteq> Some (JNum (int rid))"
  shows "untouched rid s (handle_line P n r s ln)"
proof (cases "trim ln = []")
  case True
  then show ?thesis by (simp add: handle_line_def)
next
  case t: False
  show ?thesis
  proof (cases "P (trim ln)")
    case None
    then show ?thesis using t by (simp add: handle_line_def)
  next
    case (Some response)
    have "rid \<notin> set (pendingRequests (heap s r))
           \<or> property response ''id'' \<noteq> Some (JNum (int rid))"
      using assms t Some by (simp add: line_id_def)
    then show ?thesis
      using untouched_handle_response t Some by (simp add: handle_line_def)
  qed
qed

lemma untouched_foldl_handle_line:
  assumes "rid \<notin> set (pendingRequests (heap s r))
           \<or> (\<forall>ln \<in> set lns. line_id P ln \<noteq> Some (JNum (int rid)))"
  shows "untouched rid s (foldl (handle_line P n r) s lns)"
  using assms
proof (induction lns arbitrary: s)
  case Nil
  show ?case by simp
next
  case (Cons ln lns)
  let ?s1 = "handle_line P n r s ln"
  have u1: "untouched rid s ?s1"
    using untouched_handle_line [of rid s r P ln n] Cons.prems by auto
  have "rid \<notin> set (pendingRequests (heap ?s1 r))
           \<or> (\<forall>ln \<in> set lns. line_id P ln \<noteq> Some (JNum (int rid)))"
    using Cons.prems u1 by (auto simp: untouched_def)
  then have "untouched rid ?s1 (foldl (handle_line P n r) ?s1 lns)" by (rule Cons.IH)
  then show ?case using untouched_trans [OF u1] by simp
qed

lemma untouched_set_buffer: "untouched rid s (set_buffer r b s)"
  by (simp add: untouched_same)

lemma untouched_handleServerData:
  assumes "\<forall>r. connections s n = Some r \<longrightarrow>
             rid \<notin> set (pendingRequests (heap s r))
           \<or> (\<forall>ln \<in> set (complete_lines s r data). line_id P ln \<noteq> Some (JNum (int rid)))"
  shows "untouched rid s (handleServerData P s n data)"
proof (cases "connections s n")
  case None
  then show ?thesis by (simp add: handleServerData_def)
next
  case (Some r)
  let ?lns = "butlast (split_nl (buffer (heap s r) @ toString data))"
  have "rid \<notin> set (pendingRequests (heap s r))
           \<or> (\<forall>ln \<in> set ?lns. line_id P ln \<noteq> Some (JNum (int rid)))"
    using assms Some by (simp add: complete_lines_def)
  then have "untouched rid s (foldl (handle_line P n r) s ?lns)"
    by (rule untouched_foldl_handle_line)
  then show ?thesis
    using handleServerData_alt [OF Some, of P data] untouched_trans untouched_set_buffer
    by simp
qed

lemma settled_for_settle [simp]:
  "settled_for rid (settle x out s)
     = settled_for rid s @ (if x = rid then [out] else [])"
  by (simp add: settled_for_def settle_def)

lemma settled_for_fields [simp]:
  "settled_for rid (update_connection r f s) = settled_for rid s"
  "settled_for rid (clearTimeout x s) = settled_for rid s"
  "settled_for rid (set_buffer r b s) = settled_for rid s"
  by (simp_all add: settled_for_def)

lemma answered_handleServerData:
  assumes w: "wf s" and c: "connections s n = Some r"
    and mem: "rid \<in> set (pendingRequests (heap s r))"
    and l: "complete_lines s r data = before @ ln # after"
    and b: "\<forall>x \<in> set before. line_id P x \<noteq> Some (JNum (int rid))"
    and t: "trim ln \<noteq> []" and p: "P (trim ln) = Some response"
    and i: "property response ''id'' = Some (JNum (int rid))"
  shows "settled_for rid (handleServerData P s n data)
           = settled_for rid s
             @ [if truthy (property response ''error'')
                then Rejected (McpError (case property response ''error'' of
                                           None \<Rightarrow> None | Some e \<Rightarrow> property e ''message''))
                else Resolved (property response ''result'')]"
    and "\<forall>r'. rid \<notin> set (pendingRequests (heap (handleServerData P s n data) r'))"
    and "map_of (timers (handleServerData P s n data)) rid = None"
proof -
  let ?out = "if truthy (property response ''error'')
                then Rejected (McpError (case property response ''error'' of
                                           None \<Rightarrow> None | Some e \<Rightarrow> property e ''message''))
                else Resolved (property response ''result'')"
  define s1 where "s1 = foldl (handle_line P n r) s before"
  define s2 where "s2 = handle_line P n r s1 ln"
  define s3 where "s3 = foldl (handle_line P n r) s2 after"
  have u1: "untouched rid s s1"
    unfolding s1_def using untouched_foldl_handle_line [of rid s r before P n] b by blast
  have w1: "wf s1" unfolding s1_def using w by (rule wf_foldl_handle_line)
  have m1: "rid \<in> set (pendingRequests (heap s1 r))" using u1 mem by (simp add: untouched_def)
  have uniq: "\<And>r'. r' \<noteq> r \<Longrightarrow> rid \<notin> set (pendingRequests (heap s1 r'))"
    using w1 m1 unfolding wf_def inv_unique_def by blast
  have s2: "s2 = settle rid ?out
                  (update_connection r
                     (\<lambda>c. c\<lparr>pendingRequests := removeAll rid (pendingRequests c)\<rparr>)
                     (clearTimeout rid s1))"
    unfolding s2_def using handle_response_pending [OF i m1, of n] t p
    by (simp add: handle_line_def)
  have a2: "settled_for rid s2 = settled_for rid s1 @ [?out]" by (simp add: s2)
  have p2: "\<forall>r'. rid \<notin> set (pendingRequests (heap s2 r'))" using uniq by (simp add: s2)
  have t2: "map_of (timers s2) rid = None" by (simp add: s2 map_of_filter_key)
  have u3: "untouched rid s2 s3"
    unfolding s3_def using untouched_foldl_handle_line [of rid s2 r after P n] p2 by blast
  have h: "handleServerData P s n data
             = set_buffer r (last (split_nl (buffer (heap s r) @ toString data))) s3"
    using handleServerData_alt [OF c, of P data] l
    by (simp add: complete_lines_def s1_def s2_def s3_def)
  show "settled_for rid (handleServerData P s n data) = settled_for rid s @ [?out]"
    using u1 u3 a2 by (simp add: h untouched_def)
  show "\<forall>r'. rid \<notin> set (pendingRequests (heap (handleServerData P s n data) r'))"
    using u3 p2 by (simp add: h untouched_def)
  show "map_of (timers (handleServerData P s n data)) rid = None"
    using u3 t2 by (simp add: h untouched_def)
qed


lemma forwarded_Nil [simp]: "forwarded P [] = []"
  by (simp add: forwarded_def)




lemma emit_nothing [simp]: "s\<lparr>emitted := emitted s\<rparr> = s"
  by simp

lemma pending_get_Nil [simp]: "pending_get [] v = None"
  by (simp add: pending_get_def split: json.splits)



subsection \<open>The inputs of the examples, evaluated\<close>

lemmas mcp_eval = new_client_def spawn_def sendRequest_def isConnected_def
  update_connection_def stdin_write_def new_connection_def new_process_def Let_def str_def
  two_servers_def test_server_def

lemma toString_examples:
  "toString id7_line = [123, 34, 105, 100, 34, 58, 55, 125, 10]"
  "toString accent_line = [123, 34, 97, 34, 58, 34, 233, 34, 125, 10]"
  "toString accent_head = [123, 34, 97, 34, 58, 34, 65533]"
  "toString accent_tail = [65533, 34, 125, 10]"
  by (simp_all add: toString_def id7_line_def accent_line_def accent_head_def accent_tail_def
        utf16_def)

lemma trim_examples:
  "trim [123, 34, 105, 100, 34, 58, 55, 125] = [123, 34, 105, 100, 34, 58, 55, 125]"
  "trim [123, 34, 97, 34, 58, 34, 233, 34, 125] = [123, 34, 97, 34, 58, 34, 233, 34, 125]"
  "trim [123, 34, 97, 34, 58, 34, 65533, 65533, 34, 125]
     = [123, 34, 97, 34, 58, 34, 65533, 65533, 34, 125]"
  by (simp_all add: trim_def is_space_def)

lemma reply_lines:
  "toString reply_1_line = [123, 34, 105, 100, 34, 58, 49, 44, 34, 114, 101, 115, 117, 108, 116,
                            34, 58, 116, 114, 117, 101, 125, 10]"
  "toString reply_2_line = [123, 34, 105, 100, 34, 58, 50, 44, 34, 114, 101, 115, 117, 108, 116,
                            34, 58, 116, 114, 117, 101, 125, 10]"
  "toString null_line = [110, 117, 108, 108, 10]"
  by (simp_all add: toString_def reply_1_line_def reply_2_line_def null_line_def)

lemma reply_trims:
  "trim [123, 34, 105, 100, 34, 58, 49, 44, 34, 114, 101, 115, 117, 108, 116,
         34, 58, 116, 114, 117, 101, 125]
     = [123, 34, 105, 100, 34, 58, 49, 44, 34, 114, 101, 115, 117, 108, 116,
        34, 58, 116, 114, 117, 101, 125]"
  "trim [123, 34, 105, 100, 34, 58, 50, 44, 34, 114, 101, 115, 117, 108, 116,
         34, 58, 116, 114, 117, 101, 125]
     = [123, 34, 105, 100, 34, 58, 50, 44, 34, 114, 101, 115, 117, 108, 116,
        34, 58, 116, 114, 117, 101, 125]"
  "trim [110, 117, 108, 108] = [110, 117, 108, 108]"
  by (simp_all add: trim_def is_space_def)

lemma started_fields:
  "connections started (str ''a'') = Some 0" "connections started [97] = Some 0"
  "buffer (heap started 0) = []"
  "pendingRequests (heap started 0) = []" "emitted started = []" "settled started = []"
  "\<not> ready (heap started 0)" "requestId started = 0" "stdin (process (heap started 0)) = []"
  by (simp_all add: started_def mcp_eval)

lemma started_lines:
  "complete_lines started 0 accent_line = [[123, 34, 97, 34, 58, 34, 233, 34, 125]]"
  "complete_lines started 0 id7_line = [[123, 34, 105, 100, 34, 58, 55, 125]]"
  "complete_lines started 0 null_line = [[110, 117, 108, 108]]"
  "last (split_nl (toString accent_line)) = []"
  "last (split_nl (toString id7_line)) = []"
  "last (split_nl (toString null_line)) = []"
  by (simp_all add: complete_lines_def started_fields toString_examples reply_lines)

lemma test_run_ids: "snd (run test_json (new_client two_servers) test_run) = [1, 2, 3]"
  by (simp add: test_run_def mcp_eval)

lemma test_state_pending: "pendingRequests (heap test_state 1) = [2]"
  by (simp add: test_state_def test_run_def mcp_eval)

lemma test_state_settled: "settled test_state = []"
  by (simp add: test_state_def test_run_def mcp_eval)

lemma test_state_fields:
  "connections test_state (str ''b'') = Some 1" "buffer (heap test_state 1) = []"
  "buffer (heap test_state (Suc 0)) = []"
  "pendingRequests (heap test_state 0) = [1, 3]"
  by (simp_all add: test_state_def test_run_def mcp_eval)

lemma burst_lines:
  "complete_lines test_state (Suc 0) burst
     = [[123, 34, 105, 100, 34, 58, 55, 125],
        [123, 34, 105, 100, 34, 58, 50, 44, 34, 114, 101, 115, 117, 108, 116,
         34, 58, 116, 114, 117, 101, 125],
        [123, 34, 105, 100, 34, 58, 50, 44, 34, 114, 101, 115, 117, 108, 116,
         34, 58, 116, 114, 117, 101, 125]]"
  by (simp add: complete_lines_def test_state_fields burst_def id7_line_def reply_2_line_def
        toString_def)


lemma exited_fields:
  "connections exited (str ''a'') = None" "connections exited [97] = None"
  "pendingRequests (heap exited 0) = [1]"
  "settled exited = []"
  "map_of (timers exited) 1
     = Some \<lparr>t_conn = 0, t_method = str ''tools/call'', t_server = str ''a'', t_delay = 60000\<rparr>"
  "map_of (timers exited) (Suc 0)
     = Some \<lparr>t_conn = 0, t_method = [116, 111, 111, 108, 115, 47, 99, 97, 108, 108],
             t_server = [97], t_delay = 60000\<rparr>"
  by (simp_all add: exited_def exit_run_def mcp_eval process_exit_def)

lemma respawned_fields:
  "connections respawned (str ''a'') = Some 1" "connections respawned [97] = Some (Suc 0)"
  "buffer (heap respawned 1) = []" "buffer (heap respawned (Suc 0)) = []"
  "pendingRequests (heap respawned (Suc 0)) = [2]"
  "pendingRequests (heap respawned 0) = [1]" "pendingRequests (heap respawned 1) = [2]"
  "settled respawned = []"
  by (simp_all add: respawned_def respawn_run_def mcp_eval)






subsection \<open>Requests and responses\<close>

text \<open>
  C1 as stated fails where it says that a response never resolves zero requests. The
  subprocess of server \<open>a\<close> exits while request 1 is pending: the \<open>exit\<close> handler
  removes the connection from the map and leaves the request to its timer. The chunk
  \<^verbatim>\<open>{"id":1,"result":true}\<close> that arrives on its standard output afterwards finds no
  connection under the name and is dropped. The same chunk is dropped when server \<open>a\<close>
  has been started again in the meantime: it is matched against the new connection
  object, where id 1 is not pending. In both runs request 1 stays pending.
\<close>

theorem response_after_exit_or_restart_resolves_nothing:
  "test_json [123, 34, 105, 100, 34, 58, 49, 44, 34, 114, 101, 115, 117, 108, 116,
              34, 58, 116, 114, 117, 101, 125]
     = Some (JObj [(str ''id'', JNum 1), (str ''result'', JBool True)])
   \<and> pendingRequests (heap exited 0) = [1]
   \<and> map_of (timers exited) 1
       = Some \<lparr>t_conn = 0, t_method = str ''tools/call'', t_server = str ''a'', t_delay = 60000\<rparr>
   \<and> handleServerData test_json exited (str ''a'') reply_1_line = exited
   \<and> settled exited = []
   \<and> pendingRequests (heap respawned 0) = [1]
   \<and> settled (handleServerData test_json respawned (str ''a'') reply_1_line) = []
   \<and> pendingRequests (heap (handleServerData test_json respawned (str ''a'') reply_1_line) 0)
       = [1]"
  by (simp add: exited_fields respawned_fields test_json_def handleServerData_def Let_def
        reply_lines handle_line_def reply_trims handle_response_def property_def str_def
        pending_get_def)

text \<open>
  C1, as amended. In every run of a client the ids handed out are strictly increasing,
  whatever the connections the requests go to and however often a server is started
  again, and the next request gets an id above all of them. A chunk is handled for the
  connection object registered under the server's name at that moment. If a request is
  pending there and the chunk completes a line carrying its id, the first such line
  settles the request, once, with the result or the error of that line; the request is
  pending nowhere afterwards and its timer is cleared. Every other request is left
  untouched by the chunk: it gets no outcome, keeps its timer, and stays pending where it
  was. That is so for a request that is not pending on the registered connection, for a
  request no line of the chunk names, and for every request when no connection is
  registered under the name.
  (The counter is a JavaScript number, exact up to \<open>2^53\<close>; the model counts in
  \<open>nat\<close>.)
\<close>

theorem request_ids_and_responses:
  assumes "run P (new_client cfg) acts = (s, ids)"
  shows "sorted_wrt (<) ids \<and> distinct ids
       \<and> (\<forall>n m p rid s'. sendRequest s n m p = Inr (rid, s') \<longrightarrow> (\<forall>i \<in> set ids. i < rid))
       \<and> (\<forall>n r data rid before ln after response.
            connections s n = Some r \<and> rid \<in> set (pendingRequests (heap s r))
          \<and> complete_lines s r data = before @ ln # after
          \<and> (\<forall>x \<in> set before. line_id P x \<noteq> Some (JNum (int rid)))
          \<and> trim ln \<noteq> [] \<and> P (trim ln) = Some response
          \<and> property response ''id'' = Some (JNum (int rid)) \<longrightarrow>
              settled_for rid (handleServerData P s n data)
                = settled_for rid s
                  @ [if truthy (property response ''error'')
                     then Rejected (McpError (case property response ''error'' of
                                       None \<Rightarrow> None | Some e \<Rightarrow> property e ''message''))
                     else Resolved (property response ''result'')]
            \<and> (\<forall>r'. rid \<notin> set (pendingRequests (heap (handleServerData P s n data) r')))
            \<and> map_of (timers (handleServerData P s n data)) rid = None)
       \<and> (\<forall>n data rid.
            (\<forall>r. connections s n = Some r \<longrightarrow>
                   rid \<notin> set (pendingRequests (heap s r))
                 \<or> (\<forall>ln \<in> set (complete_lines s r data).
                       line_id P ln \<noteq> Some (JNum (int rid)))) \<longrightarrow>
              untouched rid s (handleServerData P s n data))"
proof -
  have ids: "requestId (new_client cfg) \<le> requestId s \<and> sorted_wrt (<) ids
     \<and> (\<forall>i \<in> set ids. requestId (new_client cfg) < i \<and> i \<le> requestId s)"
    using run_ids [OF assms] .
  have w: "wf s" using wf_run [OF wf_new_client, of P cfg acts] assms by simp
  have d: "distinct ids" using ids strict_sorted_iff by blast
  have nxt: "\<forall>n m p rid s'. sendRequest s n m p = Inr (rid, s') \<longrightarrow> (\<forall>i \<in> set ids. i < rid)"
  proof (intro allI impI ballI)
    fix n m p rid s' i
    assume "sendRequest s n m p = Inr (rid, s')" and "i \<in> set ids"
    then show "i < rid" using ids by (auto dest!: sendRequest_Inr)
  qed
  have yes: "\<forall>n r data rid before ln after response.
            connections s n = Some r \<and> rid \<in> set (pendingRequests (heap s r))
          \<and> complete_lines s r data = before @ ln # after
          \<and> (\<forall>x \<in> set before. line_id P x \<noteq> Some (JNum (int rid)))
          \<and> trim ln \<noteq> [] \<and> P (trim ln) = Some response
          \<and> property response ''id'' = Some (JNum (int rid)) \<longrightarrow>
              settled_for rid (handleServerData P s n data)
                = settled_for rid s
                  @ [if truthy (property response ''error'')
                     then Rejected (McpError (case property response ''error'' of
                                       None \<Rightarrow> None | Some e \<Rightarrow> property e ''message''))
                     else Resolved (property response ''result'')]
            \<and> (\<forall>r'. rid \<notin> set (pendingRequests (heap (handleServerData P s n data) r')))
            \<and> map_of (timers (handleServerData P s n data)) rid = None"
  proof (intro allI impI, elim conjE)
    fix n r data rid before ln after response
    assume c: "connections s n = Some r" and mem: "rid \<in> set (pendingRequests (heap s r))"
      and l: "complete_lines s r data = before @ ln # after"
      and b: "\<forall>x \<in> set before. line_id P x \<noteq> Some (JNum (int rid))"
      and t: "trim ln \<noteq> []" and p: "P (trim ln) = Some response"
      and i: "property response ''id'' = Some (JNum (int rid))"
    note a = answered_handleServerData [where P = P, OF w c mem l b t p i]
    show "settled_for rid (handleServerData P s n data)
                = settled_for rid s
                  @ [if truthy (property response ''error'')
                     then Rejected (McpError (case property response ''error'' of
                                       None \<Rightarrow> None | Some e \<Rightarrow> property e ''message''))
                     else Resolved (property response ''result'')]
            \<and> (\<forall>r'. rid \<notin> set (pendingRequests (heap (handleServerData P s n data) r')))
            \<and> map_of (timers (handleServerData P s n data)) rid = None"
      using a by blast
  qed
  have no: "\<forall>n data rid.
            (\<forall>r. connections s n = Some r \<longrightarrow>
                   rid \<notin> set (pendingRequests (heap s r))
                 \<or> (\<forall>ln \<in> set (complete_lines s r data).
                       line_id P ln \<noteq> Some (JNum (int rid)))) \<longrightarrow>
              untouched rid s (handleServerData P s n data)"
    using untouched_handleServerData by blast
  show ?thesis using ids d nxt yes no by blast
qed

text \<open>
  Requests 1 and 3 are pending on server \<open>a\<close>, request 2 on server \<open>b\<close>. One chunk
  from \<open>b\<close> holds \<^verbatim>\<open>{"id":7}\<close> and twice the answer to request 2: the request is
  resolved once, and requests 1 and 3 are untouched.
\<close>

theorem request_ids_and_responses_witness:
  "run test_json (new_client two_servers) test_run = (test_state, [1, 2, 3])
   \<and> sorted_wrt (<) [1, 2, 3 :: nat]
   \<and> settled_for 2 (handleServerData test_json test_state (str ''b'') burst)
       = [Resolved (Some (JBool True))]
   \<and> (\<forall>r. 2 \<notin> set (pendingRequests
                      (heap (handleServerData test_json test_state (str ''b'') burst) r)))
   \<and> untouched 1 test_state (handleServerData test_json test_state (str ''b'') burst)
   \<and> untouched 3 test_state (handleServerData test_json test_state (str ''b'') burst)"
proof -
  have rn: "run test_json (new_client two_servers) test_run = (test_state, [1, 2, 3])"
    using test_run_ids by (simp add: test_state_def prod_eq_iff)
  let ?l7 = "[123, 34, 105, 100, 34, 58, 55, 125]"
  let ?ln = "[123, 34, 105, 100, 34, 58, 50, 44, 34, 114, 101, 115, 117, 108, 116,
              34, 58, 116, 114, 117, 101, 125]"
  have l: "complete_lines test_state 1 burst = [?l7] @ ?ln # [?ln]"
    using burst_lines by simp
  have b: "\<forall>x \<in> set [?l7]. line_id test_json x \<noteq> Some (JNum (int 2))"
    by (simp add: line_id_def trim_examples test_json_def property_def str_def)
  have t: "trim ?ln \<noteq> []" by (simp add: reply_trims)
  have p: "test_json (trim ?ln) = Some reply_2"
    by (simp add: reply_trims test_json_def reply_2_def)
  have i: "property reply_2 ''id'' = Some (JNum (int 2))"
    by (simp add: reply_2_def property_def str_def)
  have v: "\<not> truthy (property reply_2 ''error'')"
    "property reply_2 ''result'' = Some (JBool True)"
    by (simp_all add: reply_2_def property_def str_def truthy_def)
  have mem: "2 \<in> set (pendingRequests (heap test_state 1))"
    using test_state_pending by simp
  have s0: "settled_for 2 test_state = []" by (simp add: settled_for_def test_state_settled)
  have o1: "\<forall>r. connections test_state (str ''b'') = Some r \<longrightarrow>
              1 \<notin> set (pendingRequests (heap test_state r))
            \<or> (\<forall>ln \<in> set (complete_lines test_state r burst).
                  line_id test_json ln \<noteq> Some (JNum (int 1)))"
    using test_state_pending by (simp add: test_state_fields)
  have o3: "\<forall>r. connections test_state (str ''b'') = Some r \<longrightarrow>
              3 \<notin> set (pendingRequests (heap test_state r))
            \<or> (\<forall>ln \<in> set (complete_lines test_state r burst).
                  line_id test_json ln \<noteq> Some (JNum (int 3)))"
    using test_state_pending by (simp add: test_state_fields)
  note th = request_ids_and_responses [OF rn]
  have srt: "sorted_wrt (<) [1, 2, 3 :: nat]" using th by blast
  have yes: "settled_for 2 (handleServerData test_json test_state (str ''b'') burst)
                = settled_for 2 test_state
                  @ [if truthy (property reply_2 ''error'')
                     then Rejected (McpError (case property reply_2 ''error'' of
                                       None \<Rightarrow> None | Some e \<Rightarrow> property e ''message''))
                     else Resolved (property reply_2 ''result'')]
            \<and> (\<forall>r'. 2 \<notin> set (pendingRequests
                        (heap (handleServerData test_json test_state (str ''b'') burst) r')))"
    using th [THEN conjunct2, THEN conjunct2, THEN conjunct2, THEN conjunct1, rule_format,
              of "str ''b''" 1 2 burst "[?l7]" ?ln "[?ln]" reply_2]
      test_state_fields(1) mem l b t p i
    by simp
  have u1: "untouched 1 test_state (handleServerData test_json test_state (str ''b'') burst)"
    using th [THEN conjunct2, THEN conjunct2, THEN conjunct2, THEN conjunct2, rule_format,
              of "str ''b''" 1 burst] o1 by blast
  have u3: "untouched 3 test_state (handleServerData test_json test_state (str ''b'') burst)"
    using th [THEN conjunct2, THEN conjunct2, THEN conjunct2, THEN conjunct2, rule_format,
              of "str ''b''" 3 burst] o3 by blast
  show ?thesis using rn srt yes u1 u3 v s0 by simp
qed

subsection \<open>Timeouts\<close>


















subsection \<open>Notifications\<close>




subsection \<open>Chunks cut inside a character\<close>

text \<open>
  C4. The claim holds for cuts on character boundaries, as shown above, and fails for a
  cut inside a character. The bytes of the line \<^verbatim>\<open>{"a":"X"}\<close>, X being U+00E9 in
  UTF-8 (C3 A9), arrive whole or cut between the two bytes of X. Each chunk is decoded
  on its own, so the cut turns X into two U+FFFD, and the line parses to another
  message.
\<close>

theorem split_inside_character_changes_message:
  assumes "P [123, 34, 97, 34, 58, 34, 233, 34, 125] = Some (JObj [(str ''a'', JStr [233])])"
    and "P [123, 34, 97, 34, 58, 34, 65533, 65533, 34, 125]
           = Some (JObj [(str ''a'', JStr [65533, 65533])])"
  shows "accent_head @ accent_tail = accent_line
       \<and> emitted (handleServerData P started (str ''a'') accent_line)
           = [Notification (str ''a'') (JObj [(str ''a'', JStr [233])])]
       \<and> emitted (handleServerData P
                     (handleServerData P started (str ''a'') accent_head)
                     (str ''a'') accent_tail)
           = [Notification (str ''a'') (JObj [(str ''a'', JStr [65533, 65533])])]"
proof -
  have a: "accent_head @ accent_tail = accent_line"
    by (simp add: accent_head_def accent_tail_def accent_line_def)
  have b: "emitted (handleServerData P started (str ''a'') accent_line)
           = [Notification (str ''a'') (JObj [(str ''a'', JStr [233])])]"
    using assms(1)
    by (simp add: handleServerData_def started_fields toString_examples Let_def handle_line_def
        trim_examples handle_response_def property_def str_def)
  have c1: "handleServerData P started (str ''a'') accent_head
           = update_connection 0 (\<lambda>c. c\<lparr>buffer := [123, 34, 97, 34, 58, 34, 65533]\<rparr>) started"
    by (simp add: handleServerData_def started_fields toString_examples Let_def)
  have c: "emitted (handleServerData P
                     (handleServerData P started (str ''a'') accent_head)
                     (str ''a'') accent_tail)
           = [Notification (str ''a'') (JObj [(str ''a'', JStr [65533, 65533])])]"
    using assms(2)
    by (simp add: c1 handleServerData_def started_fields toString_examples Let_def
        handle_line_def trim_examples handle_response_def property_def str_def)
  show ?thesis using a b c by simp
qed

theorem split_inside_character_changes_message_witness:
  "emitted (handleServerData test_json started (str ''a'') accent_line)
     = [Notification (str ''a'') (JObj [(str ''a'', JStr [233])])]
   \<and> emitted (handleServerData test_json
                 (handleServerData test_json started (str ''a'') accent_head)
                 (str ''a'') accent_tail)
     = [Notification (str ''a'') (JObj [(str ''a'', JStr [65533, 65533])])]"
  using split_inside_character_changes_message [of test_json]
  by (simp add: test_json_def)

subsection \<open>Tool calls on a server\<close>

text \<open>
  C6 as stated fails: between the spawn and the end of the handshake the connection is
  registered and not ready, and \<open>callTool\<close> writes its request to the subprocess.
\<close>

theorem callTool_reaches_unready_server:
  "\<not> isConnected started (str ''a'')
   \<and> callTool started (str ''a'') (str ''echo'') (JObj []) = Inr (1, called)
   \<and> stdin (process (heap called 0))
       = [RpcRequest 1 (str ''tools/call'')
            (JObj [(str ''name'', JStr (str ''echo'')), (str ''arguments'', JObj [])])]"
  by (simp add: called_def callTool_def isConnected_def started_def mcp_eval)

text \<open>
  C6, as amended. \<open>callTool\<close> needs a connection registered under the server's name.
  Without one it fails at once with "not connected" and writes nothing. With one, ready
  or not, it takes the next id and writes the request to the subprocess.
\<close>

theorem callTool_requires_registration:
  "(connections s n = None \<longrightarrow> callTool s n t a = Inl (NotConnected n))
   \<and> (\<forall>r. connections s n = Some r \<longrightarrow>
         (\<exists>s'. callTool s n t a = Inr (requestId s + 1, s')
              \<and> stdin (process (heap s' r))
                  = stdin (process (heap s r))
                    @ [RpcRequest (requestId s + 1) (str ''tools/call'')
                         (JObj [(str ''name'', JStr t), (str ''arguments'', a)])]))"
  by (simp add: callTool_def sendRequest_def Let_def update_connection_def stdin_write_def)

theorem callTool_requires_registration_witness:
  "connections started (str ''b'') = None
   \<and> callTool started (str ''b'') (str ''echo'') (JObj []) = Inl (NotConnected (str ''b''))
   \<and> connections started (str ''a'') = Some 0
   \<and> (\<exists>s'. callTool started (str ''a'') (str ''echo'') (JObj []) = Inr (1, s')
          \<and> stdin (process (heap s' 0))
              = [RpcRequest 1 (str ''tools/call'')
                   (JObj [(str ''name'', JStr (str ''echo'')), (str ''arguments'', JObj [])])])"
proof -
  have b: "connections started (str ''b'') = None"
    by (simp add: started_def mcp_eval)
  show ?thesis
    using callTool_requires_registration [of started "str ''b''" "str ''echo''" "JObj []"]
      callTool_requires_registration [of started "str ''a''" "str ''echo''" "JObj []"] b
    by (simp add: started_fields)
qed

section \<open>Properties of the protocol client\<close>

lemma frame_refl [simp]: "frame r s s"
  by (simp add: frame_def)

lemma frame_trans: "frame r s s1 \<Longrightarrow> frame r s1 s2 \<Longrightarrow> frame r s s2"
  by (simp add: frame_def)

lemma response_object_id:
  "response_object rid rep = Some response \<Longrightarrow>
     response \<noteq> JNull \<and> property response ''id'' = Some (JNum (int rid))"
  by (auto simp: response_object_def property_def str_def split: reply.splits)

lemma response_object_fields:
  "response_object rid (Result v) = Some response \<Longrightarrow>
     property response ''error'' = None \<and> property response ''result'' = Some v"
  "response_object rid (Failure e) = Some response \<Longrightarrow>
     property response ''error'' = Some e \<and> property response ''result'' = None"
  by (auto simp: response_object_def property_def str_def)

text \<open>
  A request to a subprocess that is there returns: with the value of the reply, or
  with an error when the reply is an error or does not come before the timer fires.
\<close>

lemma request_spec:
  assumes w: "wf s" and r: "connections s n = Some r" and g: "rep \<noteq> Gone"
  shows "\<exists>res s'. request s n m p rep = Returns (res, s')
           \<and> (case reply_value rep of Some v \<Rightarrow> res = Inr v | None \<Rightarrow> (\<exists>e. res = Inl e))
           \<and> wf s' \<and> frame r s s'"
proof -
  obtain rid s1 where send: "sendRequest s n m p = Inr (rid, s1)"
    using r by (simp add: sendRequest_def Let_def)
  have w1: "wf s1" using wf_sendRequest [OF w send] .
  obtain r0 where r0: "connections s n = Some r0"
    and pend1: "\<forall>r'. set (pendingRequests (heap s1 r')) =
                 (if r' = r0 then insert rid (set (pendingRequests (heap s r0)))
                  else set (pendingRequests (heap s r')))"
    and tim1: "timers s1 = timers s @ [(rid, \<lparr>t_conn = r0, t_method = m,
                                               t_server = n, t_delay = 60000\<rparr>)]"
    using sendRequest_effect(1) [OF send] by blast
  have rr: "r0 = r" using r r0 by simp
  have rid: "rid = requestId s + 1" and set1: "settled s1 = settled s"
    and con1: "connections s1 = connections s"
    using sendRequest_effect(2,4,5) [OF send] by simp_all
  have f1: "frame r s s1"
    using sendRequest_Inr [OF send] r
    by (auto simp: frame_def stdin_write_def)
  have fresh_t: "map_of (timers s) rid = None"
  proof (rule map_of_fresh_key, clarify)
    fix v assume "(rid, v) \<in> set (timers s)"
    then have "rid \<le> requestId s" using w by (auto simp: wf_def inv_timers_def)
    then show False using rid by simp
  qed
  have fresh_s: "map_of (settled s) rid = None"
  proof (rule map_of_fresh_key, clarify)
    fix v assume "(rid, v) \<in> set (settled s)"
    then have "rid \<le> requestId s" using w by (auto simp: wf_def inv_settled_def)
    then show False using rid by simp
  qed
  have t1: "map_of (timers s1) rid = Some \<lparr>t_conn = r, t_method = m,
                                               t_server = n, t_delay = 60000\<rparr>"
    using fresh_t by (simp add: tim1 map_add_def rr)
  have mem: "rid \<in> set (pendingRequests (heap s1 r))" using pend1 rr by simp
  have pg: "pending_get (pendingRequests (heap s1 r)) (JNum (int rid)) = Some rid"
    using mem by (simp add: pending_get_def)
  let ?rm = "update_connection r
               (\<lambda>c. c\<lparr>pendingRequests := removeAll rid (pendingRequests c)\<rparr>)
               (clearTimeout rid s1)"
  have answered: "\<And>response out.
      response_object rid rep = Some response \<Longrightarrow>
      handle_response n r response s1 = settle rid out ?rm \<Longrightarrow>
      request s n m p rep = Returns ((case out of Resolved v \<Rightarrow> Inr v | Rejected e \<Rightarrow> Inl e),
                                  settle rid out ?rm)
      \<and> wf (settle rid out ?rm) \<and> frame r s (settle rid out ?rm)"
  proof -
    fix response out
    assume ro: "response_object rid rep = Some response"
      and hr: "handle_response n r response s1 = settle rid out ?rm"
    define s2 where "s2 = settle rid out ?rm"
    have tf: "timeout_fires s2 rid = s2"
      by (simp add: s2_def timeout_fires_def map_of_filter_key)
    have aw: "await_reply s1 n rid rep = s2"
      using ro hr r by (simp add: await_reply_def con1 tf s2_def [symmetric])
    have st: "map_of (settled s2) rid = Some out"
      using fresh_s by (simp add: s2_def set1 map_add_def)
    have wf2: "wf s2"
      using wf_handle_response [OF w1, of n r response] hr by (simp add: s2_def)
    have fr: "frame r s1 s2" by (simp add: s2_def frame_def)
    have "request s n m p rep = Returns ((case out of Resolved v \<Rightarrow> Inr v | Rejected e \<Rightarrow> Inl e), s2)
      \<and> wf s2 \<and> frame r s s2"
      using wf2 frame_trans [OF f1 fr] g
      by (simp add: request_def send aw st Let_def split: outcome.splits)
    then show "request s n m p rep = Returns ((case out of Resolved v \<Rightarrow> Inr v | Rejected e \<Rightarrow> Inl e),
                                  settle rid out ?rm)
      \<and> wf (settle rid out ?rm) \<and> frame r s (settle rid out ?rm)"
      by (simp add: s2_def)
  qed
  show ?thesis
  proof (cases rep)
    case (Result v)
    obtain response where ro: "response_object rid rep = Some response"
      by (simp add: response_object_def Result)
    have hr: "handle_response n r response s1 = settle rid (Resolved (Some v)) ?rm"
      using response_object_id [OF ro] response_object_fields(1) [OF ro [unfolded Result]] pg
      by (simp add: handle_response_def Let_def truthy_def)
    show ?thesis using answered [OF ro hr] by (simp add: reply_value_def Result)
  next
    case (Failure e)
    obtain response where ro: "response_object rid rep = Some response"
      by (simp add: response_object_def Failure)
    have hr: "handle_response n r response s1
        = settle rid (if truthy (Some e) then Rejected (McpError (property e ''message''))
                      else Resolved None) ?rm"
      using response_object_id [OF ro] response_object_fields(2) [OF ro [unfolded Failure]] pg
      by (simp add: handle_response_def Let_def)
    show ?thesis using answered [OF ro hr] by (simp add: reply_value_def Failure)
  next
    case Silence
    define s2 where "s2 = settle rid (Rejected (RequestTimeout m n)) ?rm"
    have aw: "await_reply s1 n rid rep = s2"
      using t1 by (simp add: s2_def await_reply_def response_object_def Silence timeout_fires_def)
    have st: "map_of (settled s2) rid = Some (Rejected (RequestTimeout m n))"
      using fresh_s by (simp add: s2_def set1 map_add_def)
    have wf2: "wf s2"
      using wf_timeout_fires [OF w1, of rid] t1 by (simp add: s2_def timeout_fires_def)
    have fr: "frame r s1 s2" by (simp add: s2_def frame_def)
    show ?thesis
      using wf2 frame_trans [OF f1 fr]
      by (simp add: request_def send aw [unfolded Silence] st Let_def reply_value_def Silence)
  next
    case Gone
    then show ?thesis using g by simp
  qed
qed

lemma request_gone:
  "connections s n = Some r \<Longrightarrow> request s n m p Gone = Terminated broken_pipe"
  by (simp add: request_def sendRequest_def Let_def)

lemma outside_trans: "outside n r s s1 \<Longrightarrow> outside n r s1 s2 \<Longrightarrow> outside n r s s2"
proof -
  assume a: "outside n r s s1" and b: "outside n r s1 s2"
  obtain new1 where n1: "emitted s1 = emitted s @ new1" using a by (auto simp: outside_def)
  obtain new2 where n2: "emitted s2 = emitted s1 @ new2" using b by (auto simp: outside_def)
  have "emitted s2 = emitted s @ (new1 @ new2)" by (simp add: n1 n2)
  then have "\<exists>new. emitted s2 = emitted s @ new" by blast
  then show ?thesis using a b by (simp add: outside_def)
qed

lemma frame_outside: "frame r s s' \<Longrightarrow> outside n r s s'"
  by (simp add: frame_def outside_def)

lemma request_not_connected:
  "connections s n = None \<Longrightarrow> request s n m p rep = Returns (Inl (NotConnected n), s)"
  by (simp add: request_def sendRequest_def)

lemma wf_ready: "wf s \<Longrightarrow> wf (update_connection r (\<lambda>c. c\<lparr>tools := t, ready := True\<rparr>) s)"
  by (rule wf_update_connection) simp_all

lemma handshake_spec:
  assumes w: "wf s" and r: "connections s n = Some r"
    and nb: "\<not> breaks (Runs init_reply list_reply)"
  shows "\<exists>res s'. handshake s n r init_reply list_reply = Returns (res, s')
           \<and> (case offered_tools (Runs init_reply list_reply) of
                 Some t \<Rightarrow> res = Inr t \<and> ready (heap s' r)
               | None \<Rightarrow> (\<exists>e. res = Inl e) \<and> ready (heap s' r) = ready (heap s r))
           \<and> wf s' \<and> outside n r s s' \<and> connections s' n = Some r
           \<and> next_ref s' = next_ref s"
proof -
  have g1: "init_reply \<noteq> Gone" using nb by (simp add: breaks_def)
  obtain res1 s1 where q1: "request s n (str ''initialize'') initialize_params init_reply
                              = Returns (res1, s1)"
    and v1: "case reply_value init_reply of Some v \<Rightarrow> res1 = Inr v | None \<Rightarrow> (\<exists>e. res1 = Inl e)"
    and w1: "wf s1" and f1: "frame r s s1"
    using request_spec [OF w r g1] by blast
  have c1: "connections s1 n = Some r" using f1 r by (simp add: frame_def)
  show ?thesis
  proof (cases "reply_value init_reply")
    case None
    then obtain e where "res1 = Inl e" using v1 by auto
    then have "handshake s n r init_reply list_reply = Returns (Inl e, s1)"
      by (simp add: handshake_def q1)
    moreover have "ready (heap s1 r) = ready (heap s r)" "next_ref s1 = next_ref s"
      using f1 by (simp_all add: frame_def)
    ultimately show ?thesis
      using None w1 frame_outside [OF f1] c1 by (simp add: offered_tools_def)
  next
    case (Some v)
    then have res1: "res1 = Inr v" using v1 by simp
    have g2: "list_reply \<noteq> Gone" using nb Some by (simp add: breaks_def)
    let ?s2 = "sendNotification s1 n (str ''notifications/initialized'') (JObj [])"
    have w2: "wf ?s2" using w1 by (rule wf_sendNotification)
    have f2: "frame r s1 ?s2"
      using c1 by (simp add: sendNotification_def frame_def stdin_write_def)
    have c2: "connections ?s2 n = Some r" using c1 f2 by (simp add: frame_def)
    obtain res3 s3 where q3: "request ?s2 n (str ''tools/list'') (JObj []) list_reply
                              = Returns (res3, s3)"
      and v3: "case reply_value list_reply of Some v \<Rightarrow> res3 = Inr v
               | None \<Rightarrow> (\<exists>e. res3 = Inl e)"
      and w3: "wf s3" and f3: "frame r ?s2 s3"
      using request_spec [OF w2 c2 g2] by blast
    have f03: "frame r s s3" using frame_trans [OF frame_trans [OF f1 f2] f3] .
    have c3: "connections s3 n = Some r" using f03 r by (simp add: frame_def)
    show ?thesis
    proof (cases "reply_value list_reply")
      case None
      then obtain e where "res3 = Inl e" using v3 by auto
      then have "handshake s n r init_reply list_reply = Returns (Inl e, s3)"
        by (simp add: handshake_def q1 res1 q3)
      moreover have "ready (heap s3 r) = ready (heap s r)" "next_ref s3 = next_ref s"
        using f03 by (simp_all add: frame_def)
      ultimately show ?thesis
        using None Some w3 frame_outside [OF f03] c3 by (simp add: offered_tools_def)
    next
      case (Some result)
      then have res3: "res3 = Inr result" using v3 by simp
      let ?s5 = "update_connection r (\<lambda>c. c\<lparr>tools := tools_of result, ready := True\<rparr>) s3"
      let ?s6 = "?s5\<lparr>emitted := emitted ?s5 @ [ServerReady n (tools_of result)]\<rparr>"
      have h: "handshake s n r init_reply list_reply = Returns (Inr (tools_of result), ?s6)"
        by (simp add: handshake_def q1 res1 q3 res3 Let_def)
      have w6: "wf ?s6" using w3 by (intro wf_emit wf_ready)
      have o6: "outside n r s ?s6"
        using f03 by (auto simp: frame_def outside_def)
      have "ready (heap ?s6 r)" by simp
      moreover have "connections ?s6 n = Some r" using c3 by simp
      moreover have "next_ref ?s6 = next_ref s" using f03 by (simp add: frame_def)
      ultimately show ?thesis
        using h w6 o6 Some \<open>reply_value init_reply = Some v\<close>
        by (simp add: offered_tools_def)
    qed
  qed
qed

text \<open>
  A subprocess that is gone when \<open>initialize\<close> is written, or when \<open>tools/list\<close> is
  written after \<open>initialize\<close> has resolved, ends the client.
\<close>

lemma handshake_gone:
  assumes w: "wf s" and r: "connections s n = Some r"
    and b: "breaks (Runs init_reply list_reply)"
  shows "handshake s n r init_reply list_reply = Terminated broken_pipe"
proof (cases "init_reply = Gone")
  case True
  then show ?thesis using request_gone [OF r] by (simp add: handshake_def)
next
  case False
  then have l: "list_reply = Gone" and rv: "reply_value init_reply \<noteq> None"
    using b by (simp_all add: breaks_def)
  then obtain v where v: "reply_value init_reply = Some v" by auto
  obtain res1 s1 where q1: "request s n (str ''initialize'') initialize_params init_reply
                              = Returns (res1, s1)"
    and v1: "case reply_value init_reply of Some v \<Rightarrow> res1 = Inr v | None \<Rightarrow> (\<exists>e. res1 = Inl e)"
    and f1: "frame r s s1"
    using request_spec [OF w r False] by blast
  have res1: "res1 = Inr v" using v1 v by simp
  have c1: "connections s1 n = Some r" using f1 r by (simp add: frame_def)
  let ?s2 = "sendNotification s1 n (str ''notifications/initialized'') (JObj [])"
  have c2: "connections ?s2 n = Some r" using c1 by (simp add: sendNotification_def)
  show ?thesis using request_gone [OF c2] by (simp add: handshake_def q1 res1 l)
qed

lemma wf_spawn_alloc:
  "inv_alloc s \<Longrightarrow> inv_alloc (spawn s n cfg)"
  by (auto simp: inv_alloc_def spawn_def less_Suc_eq)

lemma connectServer_spec:
  assumes w: "wf s" and al: "inv_alloc s"
    and cf: "map_of (config s) n = Some cfg" and ic: "\<not> isConnected s n"
    and nb: "\<not> breaks b"
  shows "\<exists>res s'. connectServer s n b = Returns (res, s')
           \<and> (case offered_tools b of
                 Some t \<Rightarrow> res = Inr t \<and> connections s' n = Some (next_ref s)
                           \<and> ready (heap s' (next_ref s))
               | None \<Rightarrow> (\<exists>e. res = Inl e)
                         \<and> (connections s' n = None
                            \<or> connections s' n = Some (next_ref s)
                              \<and> \<not> ready (heap s' (next_ref s))))
           \<and> (stops b \<longrightarrow> connections s' n = None)
           \<and> wf s' \<and> inv_alloc s' \<and> outside n (next_ref s) s s'
           \<and> next_ref s' = next_ref s + 1"
proof -
  let ?s0 = "spawn s n cfg"
  have w0: "wf ?s0" using w by (rule wf_spawn)
  have a0: "inv_alloc ?s0" using al by (rule wf_spawn_alloc)
  have o0: "outside n (next_ref s) s ?s0" by (simp add: outside_def spawn_def)
  have c0: "connections ?s0 n = Some (next_ref s)" by (simp add: spawn_def)
  have n0: "next_ref ?s0 = next_ref s + 1" by (simp add: spawn_def)
  show ?thesis
  proof (cases b)
    case (SpawnFails msg)
    let ?s1 = "process_error ?s0 n msg"
    have "connectServer s n b = Returns (Inl (FailedToStart msg), ?s1)"
      using cf ic by (simp add: connectServer_def SpawnFails)
    moreover have "wf ?s1" using w0 by (rule wf_process_error)
    moreover have "inv_alloc ?s1" using a0 by (auto simp: inv_alloc_def process_error_def)
    moreover have "outside n (next_ref s) s ?s1"
      by (auto simp: outside_def spawn_def process_error_def)
    moreover have "connections ?s1 n = None" by (simp add: process_error_def)
    moreover have "next_ref ?s1 = next_ref s + 1" by (simp add: process_error_def spawn_def)
    ultimately show ?thesis by (simp add: offered_tools_def SpawnFails)
  next
    case (ExitsEarly code)
    let ?s1 = "process_exit ?s0 n code"
    have "connections ?s1 n = None" by (simp add: process_exit_def)
    then have "handshake ?s1 n (next_ref s) Silence Silence = Returns (Inl (NotConnected n), ?s1)"
      by (simp add: handshake_def request_not_connected)
    then have "connectServer s n b = Returns (Inl (NotConnected n), ?s1)"
      using cf ic by (simp add: connectServer_def ExitsEarly)
    moreover have "wf ?s1" using w0 by (rule wf_process_exit)
    moreover have "inv_alloc ?s1" using a0 by (auto simp: inv_alloc_def process_exit_def)
    moreover have "outside n (next_ref s) s ?s1"
      by (auto simp: outside_def spawn_def process_exit_def)
    moreover have "next_ref ?s1 = next_ref s + 1" by (simp add: process_exit_def spawn_def)
    moreover have "connections ?s1 n = None" by (simp add: process_exit_def)
    ultimately show ?thesis by (simp add: offered_tools_def ExitsEarly)
  next
    case (Runs init_reply list_reply)
    have nb': "\<not> breaks (Runs init_reply list_reply)" using nb Runs by simp
    obtain res s' where
      h: "handshake ?s0 n (next_ref s) init_reply list_reply = Returns (res, s')"
      and v: "case offered_tools (Runs init_reply list_reply) of
                 Some t \<Rightarrow> res = Inr t \<and> ready (heap s' (next_ref s))
               | None \<Rightarrow> (\<exists>e. res = Inl e)
                         \<and> ready (heap s' (next_ref s)) = ready (heap ?s0 (next_ref s))"
      and w': "wf s'" and o': "outside n (next_ref s) ?s0 s'"
      and c': "connections s' n = Some (next_ref s)"
      and n': "next_ref s' = next_ref ?s0"
      using handshake_spec [OF w0 c0 nb'] by blast
    have cs: "connectServer s n b = Returns (res, s')"
      using cf ic h by (simp add: connectServer_def Runs)
    have a': "inv_alloc s'"
      unfolding inv_alloc_def
    proof (intro allI impI)
      fix k r assume kr: "connections s' k = Some r"
      show "r < next_ref s'"
      proof (cases "k = n")
        case True
        then show ?thesis using kr c' n' n0 by simp
      next
        case False
        then have "connections ?s0 k = Some r" using kr o' by (simp add: outside_def)
        then show ?thesis using a0 n' by (simp add: inv_alloc_def)
      qed
    qed
    have o: "outside n (next_ref s) s s'" using outside_trans [OF o0 o'] .
    have r0: "\<not> ready (heap ?s0 (next_ref s))" by (simp add: spawn_def new_connection_def)
    have ns: "\<not> stops b" by (simp add: stops_def Runs)
    show ?thesis
      using cs v w' a' o c' n' n0 r0 ns by (auto simp: Runs split: option.splits)
  qed
qed

lemma connectServer_connected:
  "map_of (config s) n = Some cfg \<Longrightarrow> connections s n = Some r \<Longrightarrow> ready (heap s r) \<Longrightarrow>
     connectServer s n b = Returns (Inr (tools (heap s r)), s)"
  by (simp add: connectServer_def isConnected_def)

lemma connectServer_gone:
  assumes w: "wf s" and cf: "map_of (config s) n = Some cfg" and ic: "\<not> isConnected s n"
    and b: "breaks b"
  shows "connectServer s n b = Terminated broken_pipe"
proof -
  obtain init_reply list_reply where rn: "b = Runs init_reply list_reply"
    using b by (cases b) (simp_all add: breaks_def)
  have w0: "wf (spawn s n cfg)" using w by (rule wf_spawn)
  have c0: "connections (spawn s n cfg) n = Some (next_ref s)" by (simp add: spawn_def)
  have "handshake (spawn s n cfg) n (next_ref s) init_reply list_reply = Terminated broken_pipe"
    using handshake_gone [OF w0 c0] b rn by simp
  then show ?thesis using cf ic by (simp add: connectServer_def rn)
qed

lemma map_of_map_set: "map_of (map_set k v ps) = (map_of ps)(k \<mapsto> v)"
  by (induction ps) auto

lemma inv_alloc_cong:
  "inv_alloc s \<Longrightarrow> connections s' = connections s \<Longrightarrow> next_ref s' = next_ref s \<Longrightarrow>
     inv_alloc s'"
  by (simp add: inv_alloc_def)

lemma known_tools_cong:
  "connections s' m = connections s m \<Longrightarrow>
   (\<forall>r. connections s m = Some r \<longrightarrow> heap s' r = heap s r) \<Longrightarrow>
     known_tools s' m = known_tools s m \<and> isConnected s' m = isConnected s m"
  by (auto simp: known_tools_def isConnected_def split: option.splits)

lemma known_tools_None: "\<not> isConnected s n \<Longrightarrow> known_tools s n = None"
  by (auto simp: known_tools_def isConnected_def split: option.splits)

text \<open>
  Connecting one server leaves what is known of the others as it is: their
  registrations, and the connection objects allocated before.
\<close>

lemma others_stable:
  assumes al: "inv_alloc s"
    and co: "\<forall>k. k \<noteq> n \<longrightarrow> connections s1 k = connections s k"
    and hp: "\<forall>r. r < next_ref s \<longrightarrow> heap s1 r = heap s r"
    and m: "m \<noteq> n"
  shows "known_tools s1 m = known_tools s m" "isConnected s1 m = isConnected s m"
    "expected_tools s1 B m = expected_tools s B m"
proof -
  have c: "connections s1 m = connections s m" using co m by simp
  have h: "\<forall>r. connections s m = Some r \<longrightarrow> heap s1 r = heap s r"
    using al hp by (auto simp: inv_alloc_def)
  show k: "known_tools s1 m = known_tools s m" and "isConnected s1 m = isConnected s m"
    using known_tools_cong [OF c h] by simp_all
  show "expected_tools s1 B m = expected_tools s B m" by (simp add: expected_tools_def k)
qed

lemma connect_each_spec:
  assumes "wf s" and "inv_alloc s" and "distinct ns"
    and "\<forall>n \<in> set ns. map_of (config s) n \<noteq> None \<and> map_of results n = None
                       \<and> (\<not> isConnected s n \<longrightarrow> \<not> breaks (B n))"
  shows "\<exists>res s' new. connect_each B ns results s = Returns (res, s')
     \<and> (\<forall>k. map_of res k = (if k \<in> set ns then expected_tools s B k else map_of results k))
     \<and> emitted s' = emitted s @ new
     \<and> (\<forall>n \<in> set ns.
            (expected_tools s B n = None \<longrightarrow>
               (\<exists>e. ServerError n e \<in> set new) \<and> \<not> isConnected s' n)
          \<and> (expected_tools s B n \<noteq> None \<longrightarrow> isConnected s' n)
          \<and> (\<not> isConnected s n \<and> stops (B n) \<longrightarrow> connections s' n = None))
     \<and> (\<forall>k. k \<notin> set ns \<longrightarrow> connections s' k = connections s k)
     \<and> (\<forall>r. r < next_ref s \<longrightarrow> heap s' r = heap s r)
     \<and> next_ref s \<le> next_ref s'"
  using assms
proof (induction ns arbitrary: s results)
  case Nil
  then show ?case by simp
next
  case (Cons n ns)
  note w = Cons.prems(1) and al = Cons.prems(2)
  obtain cfg where cf: "map_of (config s) n = Some cfg" using Cons.prems(4) by auto
  have nn: "n \<notin> set ns" and dn: "distinct ns" using Cons.prems(3) by simp_all
  have mn: "map_of results n = None" using Cons.prems(4) by simp
  show ?case
  proof (cases "isConnected s n")
    case True
    then obtain r where r: "connections s n = Some r" and rd: "ready (heap s r)"
      by (auto simp: isConnected_def split: option.splits)
    let ?t = "tools (heap s r)"
    have cs: "connectServer s n (B n) = Returns (Inr ?t, s)"
      using connectServer_connected [OF cf r rd] .
    have ex: "expected_tools s B n = Some ?t"
      using r rd by (simp add: expected_tools_def known_tools_def)
    have rl: "r < next_ref s" using al r by (auto simp: inv_alloc_def)
    have pre: "\<forall>m \<in> set ns. map_of (config s) m \<noteq> None \<and> map_of (map_set n ?t results) m = None
                       \<and> (\<not> isConnected s m \<longrightarrow> \<not> breaks (B m))"
      using Cons.prems(4) nn by (auto simp: map_of_map_set)
    obtain res s' new where
      ce: "connect_each B ns (map_set n ?t results) s = Returns (res, s')"
      and m: "\<forall>k. map_of res k = (if k \<in> set ns then expected_tools s B k
                                   else map_of (map_set n ?t results) k)"
      and em: "emitted s' = emitted s @ new"
      and p: "\<forall>m \<in> set ns.
            (expected_tools s B m = None \<longrightarrow>
               (\<exists>e. ServerError m e \<in> set new) \<and> \<not> isConnected s' m)
          \<and> (expected_tools s B m \<noteq> None \<longrightarrow> isConnected s' m)
          \<and> (\<not> isConnected s m \<and> stops (B m) \<longrightarrow> connections s' m = None)"
      and co: "\<forall>k. k \<notin> set ns \<longrightarrow> connections s' k = connections s k"
      and hp: "\<forall>r. r < next_ref s \<longrightarrow> heap s' r = heap s r"
      and nx: "next_ref s \<le> next_ref s'"
      using Cons.IH [OF w al dn pre] by blast
    have e0: "connect_each B (n # ns) results s = Returns (res, s')"
      by (simp add: cs ce)
    have e1: "\<forall>k. map_of res k = (if k \<in> set (n # ns) then expected_tools s B k
                                   else map_of results k)"
      using m nn ex by (auto simp: map_of_map_set)
    have "connections s' n = Some r" using co nn r by simp
    moreover have "heap s' r = heap s r" using hp rl by simp
    ultimately have icn: "isConnected s' n" using rd by (simp add: isConnected_def)
    have e2: "\<forall>m \<in> set (n # ns).
            (expected_tools s B m = None \<longrightarrow>
               (\<exists>e. ServerError m e \<in> set new) \<and> \<not> isConnected s' m)
          \<and> (expected_tools s B m \<noteq> None \<longrightarrow> isConnected s' m)
          \<and> (\<not> isConnected s m \<and> stops (B m) \<longrightarrow> connections s' m = None)"
      using p icn ex True by simp
    have e4: "\<forall>k. k \<notin> set (n # ns) \<longrightarrow> connections s' k = connections s k"
      using co by simp
    show ?thesis
    proof (intro exI conjI)
      show "connect_each B (n # ns) results s = Returns (res, s')" by (rule e0)
      show "\<forall>k. map_of res k = (if k \<in> set (n # ns) then expected_tools s B k
                                   else map_of results k)" by (rule e1)
      show "emitted s' = emitted s @ new" by (rule em)
      show "\<forall>m \<in> set (n # ns).
            (expected_tools s B m = None \<longrightarrow>
               (\<exists>e. ServerError m e \<in> set new) \<and> \<not> isConnected s' m)
          \<and> (expected_tools s B m \<noteq> None \<longrightarrow> isConnected s' m)
          \<and> (\<not> isConnected s m \<and> stops (B m) \<longrightarrow> connections s' m = None)" by (rule e2)
      show "\<forall>k. k \<notin> set (n # ns) \<longrightarrow> connections s' k = connections s k" by (rule e4)
      show "\<forall>r. r < next_ref s \<longrightarrow> heap s' r = heap s r" by (rule hp)
      show "next_ref s \<le> next_ref s'" by (rule nx)
    qed
  next
    case False
    have nb: "\<not> breaks (B n)" using Cons.prems(4) False by simp
    have ex: "expected_tools s B n = offered_tools (B n)"
      using known_tools_None [OF False] by (simp add: expected_tools_def)
    obtain res1 s1 where
      cs: "connectServer s n (B n) = Returns (res1, s1)"
      and v1: "case offered_tools (B n) of
                 Some t \<Rightarrow> res1 = Inr t \<and> connections s1 n = Some (next_ref s)
                           \<and> ready (heap s1 (next_ref s))
               | None \<Rightarrow> (\<exists>e. res1 = Inl e)
                         \<and> (connections s1 n = None
                            \<or> connections s1 n = Some (next_ref s)
                              \<and> \<not> ready (heap s1 (next_ref s)))"
      and sf: "stops (B n) \<longrightarrow> connections s1 n = None"
      and w1: "wf s1" and a1: "inv_alloc s1" and o1: "outside n (next_ref s) s s1"
      and n1: "next_ref s1 = next_ref s + 1"
      using connectServer_spec [OF w al cf False nb] by blast
    have cf1: "config s1 = config s" and co1: "\<forall>k. k \<noteq> n \<longrightarrow> connections s1 k = connections s k"
      and hp1: "\<forall>r. r \<noteq> next_ref s \<longrightarrow> heap s1 r = heap s r"
      using o1 by (simp_all add: outside_def)
    obtain new1 where em1: "emitted s1 = emitted s @ new1"
      using o1 by (auto simp: outside_def)
    have hl1: "\<forall>r. r < next_ref s \<longrightarrow> heap s1 r = heap s r" using hp1 by simp
    show ?thesis
    proof (cases "offered_tools (B n)")
      case (Some t)
      have r1: "res1 = Inr t" and c1: "connections s1 n = Some (next_ref s)"
        and rd: "ready (heap s1 (next_ref s))"
        using v1 Some by simp_all
      have st: "\<forall>m \<in> set ns. isConnected s1 m = isConnected s m
                          \<and> expected_tools s1 B m = expected_tools s B m"
      proof
        fix m assume "m \<in> set ns"
        then have "m \<noteq> n" using nn by auto
        then show "isConnected s1 m = isConnected s m
                 \<and> expected_tools s1 B m = expected_tools s B m"
          using others_stable(2,3) [OF al co1 hl1] by simp
      qed
      have pre: "\<forall>m \<in> set ns. map_of (config s1) m \<noteq> None
                       \<and> map_of (map_set n t results) m = None
                       \<and> (\<not> isConnected s1 m \<longrightarrow> \<not> breaks (B m))"
        using Cons.prems(4) nn cf1 st by (auto simp: map_of_map_set)
      obtain res s' new where
        ce: "connect_each B ns (map_set n t results) s1 = Returns (res, s')"
        and m: "\<forall>k. map_of res k = (if k \<in> set ns then expected_tools s1 B k
                                   else map_of (map_set n t results) k)"
        and em: "emitted s' = emitted s1 @ new"
        and p: "\<forall>m \<in> set ns.
            (expected_tools s1 B m = None \<longrightarrow>
               (\<exists>e. ServerError m e \<in> set new) \<and> \<not> isConnected s' m)
          \<and> (expected_tools s1 B m \<noteq> None \<longrightarrow> isConnected s' m)
          \<and> (\<not> isConnected s1 m \<and> stops (B m) \<longrightarrow> connections s' m = None)"
        and co: "\<forall>k. k \<notin> set ns \<longrightarrow> connections s' k = connections s1 k"
        and hp: "\<forall>r. r < next_ref s1 \<longrightarrow> heap s' r = heap s1 r"
        and nx: "next_ref s1 \<le> next_ref s'"
        using Cons.IH [OF w1 a1 dn pre] by blast
      have e0: "connect_each B (n # ns) results s = Returns (res, s')"
        by (simp add: cs r1 ce)
      have e1: "\<forall>k. map_of res k = (if k \<in> set (n # ns) then expected_tools s B k
                                   else map_of results k)"
        using m nn Some ex st by (auto simp: map_of_map_set)
      have "connections s' n = Some (next_ref s)" using co nn c1 by simp
      moreover have "heap s' (next_ref s) = heap s1 (next_ref s)" using hp n1 by simp
      ultimately have icn: "isConnected s' n" using rd by (simp add: isConnected_def)
      have sfn: "\<not> stops (B n)"
        using Some by (auto simp: offered_tools_def stops_def split: behaviour.splits)
      have em': "emitted s' = emitted s @ (new1 @ new)" by (simp add: em em1)
      have e2: "\<forall>m \<in> set (n # ns).
            (expected_tools s B m = None \<longrightarrow>
               (\<exists>e. ServerError m e \<in> set (new1 @ new)) \<and> \<not> isConnected s' m)
          \<and> (expected_tools s B m \<noteq> None \<longrightarrow> isConnected s' m)
          \<and> (\<not> isConnected s m \<and> stops (B m) \<longrightarrow> connections s' m = None)"
      proof
        fix m assume mi: "m \<in> set (n # ns)"
        show "(expected_tools s B m = None \<longrightarrow>
               (\<exists>e. ServerError m e \<in> set (new1 @ new)) \<and> \<not> isConnected s' m)
          \<and> (expected_tools s B m \<noteq> None \<longrightarrow> isConnected s' m)
          \<and> (\<not> isConnected s m \<and> stops (B m) \<longrightarrow> connections s' m = None)"
        proof (cases "m = n")
          case True
          then show ?thesis using icn sfn ex Some by simp
        next
          case False
          then have ms: "m \<in> set ns" using mi by simp
          note pm = p [rule_format, OF ms] and sm = st [rule_format, OF ms]
          show ?thesis using pm by (auto simp: sm)
        qed
      qed
      have e4: "\<forall>k. k \<notin> set (n # ns) \<longrightarrow> connections s' k = connections s k"
        using co co1 by simp
      have e5: "\<forall>r. r < next_ref s \<longrightarrow> heap s' r = heap s r"
        using hp hp1 n1 by simp
      have e6: "next_ref s \<le> next_ref s'" using nx n1 by simp
      show ?thesis
      proof (intro exI conjI)
        show "connect_each B (n # ns) results s = Returns (res, s')" by (rule e0)
        show "\<forall>k. map_of res k = (if k \<in> set (n # ns) then expected_tools s B k
                                   else map_of results k)" by (rule e1)
        show "emitted s' = emitted s @ (new1 @ new)" by (rule em')
        show "\<forall>m \<in> set (n # ns).
            (expected_tools s B m = None \<longrightarrow>
               (\<exists>e. ServerError m e \<in> set (new1 @ new)) \<and> \<not> isConnected s' m)
          \<and> (expected_tools s B m \<noteq> None \<longrightarrow> isConnected s' m)
          \<and> (\<not> isConnected s m \<and> stops (B m) \<longrightarrow> connections s' m = None)" by (rule e2)
        show "\<forall>k. k \<notin> set (n # ns) \<longrightarrow> connections s' k = connections s k" by (rule e4)
        show "\<forall>r. r < next_ref s \<longrightarrow> heap s' r = heap s r" by (rule e5)
        show "next_ref s \<le> next_ref s'" by (rule e6)
      qed
    next
      case None
      then obtain e where r1: "res1 = Inl e" using v1 by auto
      let ?s1 = "s1\<lparr>emitted := emitted s1 @ [ServerError n e]\<rparr>"
      have w1': "wf ?s1" using w1 by (rule wf_emit)
      have a1': "inv_alloc ?s1" using a1 by (rule inv_alloc_cong) simp_all
      have co1': "\<forall>k. k \<noteq> n \<longrightarrow> connections ?s1 k = connections s k" using co1 by simp
      have hl1': "\<forall>r. r < next_ref s \<longrightarrow> heap ?s1 r = heap s r" using hl1 by simp
      have st: "\<forall>m \<in> set ns. isConnected ?s1 m = isConnected s m
                          \<and> expected_tools ?s1 B m = expected_tools s B m"
      proof
        fix m assume "m \<in> set ns"
        then have "m \<noteq> n" using nn by auto
        then show "isConnected ?s1 m = isConnected s m
                 \<and> expected_tools ?s1 B m = expected_tools s B m"
          using others_stable(2,3) [OF al co1' hl1'] by simp
      qed
      have pre: "\<forall>m \<in> set ns. map_of (config ?s1) m \<noteq> None \<and> map_of results m = None
                       \<and> (\<not> isConnected ?s1 m \<longrightarrow> \<not> breaks (B m))"
        using Cons.prems(4) nn cf1 st by auto
      obtain res s' new where
        ce: "connect_each B ns results ?s1 = Returns (res, s')"
        and m: "\<forall>k. map_of res k = (if k \<in> set ns then expected_tools ?s1 B k
                                   else map_of results k)"
        and em: "emitted s' = emitted ?s1 @ new"
        and p: "\<forall>m \<in> set ns.
            (expected_tools ?s1 B m = None \<longrightarrow>
               (\<exists>e. ServerError m e \<in> set new) \<and> \<not> isConnected s' m)
          \<and> (expected_tools ?s1 B m \<noteq> None \<longrightarrow> isConnected s' m)
          \<and> (\<not> isConnected ?s1 m \<and> stops (B m) \<longrightarrow> connections s' m = None)"
        and co: "\<forall>k. k \<notin> set ns \<longrightarrow> connections s' k = connections ?s1 k"
        and hp: "\<forall>r. r < next_ref ?s1 \<longrightarrow> heap s' r = heap ?s1 r"
        and nx: "next_ref ?s1 \<le> next_ref s'"
        using Cons.IH [OF w1' a1' dn pre] by blast
      have e0: "connect_each B (n # ns) results s = Returns (res, s')"
        by (simp add: cs r1 ce)
      have e1: "\<forall>k. map_of res k = (if k \<in> set (n # ns) then expected_tools s B k
                                   else map_of results k)"
        using m nn None mn ex st by auto
      have em': "emitted s' = emitted s @ (new1 @ [ServerError n e] @ new)"
        by (simp add: em em1)
      have nr: "connections s1 n = None
              \<or> connections s1 n = Some (next_ref s) \<and> \<not> ready (heap s1 (next_ref s))"
        using v1 None by simp
      have cn: "connections s' n = connections s1 n" using co nn by simp
      moreover have "heap s' (next_ref s) = heap s1 (next_ref s)" using hp n1 by simp
      ultimately have nic: "\<not> isConnected s' n" using nr by (auto simp: isConnected_def)
      have sfn: "stops (B n) \<longrightarrow> connections s' n = None" using sf cn by simp
      have e2: "\<forall>m \<in> set (n # ns).
            (expected_tools s B m = None \<longrightarrow>
               (\<exists>e'. ServerError m e' \<in> set (new1 @ [ServerError n e] @ new))
               \<and> \<not> isConnected s' m)
          \<and> (expected_tools s B m \<noteq> None \<longrightarrow> isConnected s' m)
          \<and> (\<not> isConnected s m \<and> stops (B m) \<longrightarrow> connections s' m = None)"
      proof
        fix m assume mi: "m \<in> set (n # ns)"
        show "(expected_tools s B m = None \<longrightarrow>
               (\<exists>e'. ServerError m e' \<in> set (new1 @ [ServerError n e] @ new))
               \<and> \<not> isConnected s' m)
          \<and> (expected_tools s B m \<noteq> None \<longrightarrow> isConnected s' m)
          \<and> (\<not> isConnected s m \<and> stops (B m) \<longrightarrow> connections s' m = None)"
        proof (cases "m = n")
          case True
          have "\<exists>e'. ServerError n e' \<in> set (new1 @ [ServerError n e] @ new)" by auto
          then show ?thesis using True nic sfn ex None by simp
        next
          case False
          then have ms: "m \<in> set ns" using mi by simp
          note pm = p [rule_format, OF ms] and sm = st [rule_format, OF ms]
          show ?thesis using pm by (auto simp: sm)
        qed
      qed
      have e4: "\<forall>k. k \<notin> set (n # ns) \<longrightarrow> connections s' k = connections s k"
        using co co1 by simp
      have e5: "\<forall>r. r < next_ref s \<longrightarrow> heap s' r = heap s r"
        using hp hp1 n1 by simp
      have e6: "next_ref s \<le> next_ref s'" using nx n1 by simp
      show ?thesis
      proof (intro exI conjI)
        show "connect_each B (n # ns) results s = Returns (res, s')" by (rule e0)
        show "\<forall>k. map_of res k = (if k \<in> set (n # ns) then expected_tools s B k
                                   else map_of results k)" by (rule e1)
        show "emitted s' = emitted s @ (new1 @ [ServerError n e] @ new)" by (rule em')
        show "\<forall>m \<in> set (n # ns).
            (expected_tools s B m = None \<longrightarrow>
               (\<exists>e'. ServerError m e' \<in> set (new1 @ [ServerError n e] @ new))
               \<and> \<not> isConnected s' m)
          \<and> (expected_tools s B m \<noteq> None \<longrightarrow> isConnected s' m)
          \<and> (\<not> isConnected s m \<and> stops (B m) \<longrightarrow> connections s' m = None)" by (rule e2)
        show "\<forall>k. k \<notin> set (n # ns) \<longrightarrow> connections s' k = connections s k" by (rule e4)
        show "\<forall>r. r < next_ref s \<longrightarrow> heap s' r = heap s r" by (rule e5)
        show "next_ref s \<le> next_ref s'" by (rule e6)
      qed
    qed
  qed
qed

text \<open>
  Where the subprocess of a server that has to be started is gone when the client
  writes to it, the loop ends there with the client: the servers after it are not
  started.
\<close>

lemma connect_each_gone:
  assumes "wf s" and "inv_alloc s" and "distinct ns"
    and "\<forall>n \<in> set ns. map_of (config s) n \<noteq> None"
    and "\<exists>n \<in> set ns. \<not> isConnected s n \<and> breaks (B n)"
  shows "connect_each B ns results s = Terminated broken_pipe"
  using assms
proof (induction ns arbitrary: s results)
  case Nil
  then show ?case by simp
next
  case (Cons n ns)
  note w = Cons.prems(1) and al = Cons.prems(2)
  obtain cfg where cf: "map_of (config s) n = Some cfg" using Cons.prems(4) by auto
  have nn: "n \<notin> set ns" and dn: "distinct ns" using Cons.prems(3) by simp_all
  show ?case
  proof (cases "isConnected s n")
    case True
    then obtain r where r: "connections s n = Some r" and rd: "ready (heap s r)"
      by (auto simp: isConnected_def split: option.splits)
    have cs: "connectServer s n (B n) = Returns (Inr (tools (heap s r)), s)"
      using connectServer_connected [OF cf r rd] .
    have "\<exists>m \<in> set ns. \<not> isConnected s m \<and> breaks (B m)"
      using Cons.prems(5) True by auto
    moreover have "\<forall>m \<in> set ns. map_of (config s) m \<noteq> None" using Cons.prems(4) by simp
    ultimately show ?thesis using Cons.IH [OF w al dn] by (simp add: cs)
  next
    case False
    show ?thesis
    proof (cases "breaks (B n)")
      case True
      then show ?thesis using connectServer_gone [OF w cf False] by simp
    next
      case nb: False
      obtain res1 s1 where
        cs: "connectServer s n (B n) = Returns (res1, s1)"
        and w1: "wf s1" and a1: "inv_alloc s1" and o1: "outside n (next_ref s) s s1"
        using connectServer_spec [OF w al cf False nb] by blast
      have cf1: "config s1 = config s"
        and co1: "\<forall>k. k \<noteq> n \<longrightarrow> connections s1 k = connections s k"
        and hp1: "\<forall>r. r \<noteq> next_ref s \<longrightarrow> heap s1 r = heap s r"
        using o1 by (simp_all add: outside_def)
      have hl1: "\<forall>r. r < next_ref s \<longrightarrow> heap s1 r = heap s r" using hp1 by simp
      obtain m where mi: "m \<in> set (n # ns)" and mc: "\<not> isConnected s m" and mb: "breaks (B m)"
        using Cons.prems(5) by blast
      have mn: "m \<noteq> n" using mb nb by auto
      then have ms: "m \<in> set ns" using mi by simp
      have mc1: "\<not> isConnected s1 m" using others_stable(2) [OF al co1 hl1 mn] mc by simp
      have pc: "\<forall>k \<in> set ns. map_of (config s1) k \<noteq> None" using Cons.prems(4) cf1 by simp
      show ?thesis
      proof (cases res1)
        case (Inr t)
        have "\<exists>k \<in> set ns. \<not> isConnected s1 k \<and> breaks (B k)" using ms mc1 mb by blast
        then show ?thesis using Cons.IH [OF w1 a1 dn pc] by (simp add: cs Inr)
      next
        case (Inl e)
        let ?s1 = "s1\<lparr>emitted := emitted s1 @ [ServerError n e]\<rparr>"
        have w1': "wf ?s1" using w1 by (rule wf_emit)
        have a1': "inv_alloc ?s1" using a1 by (rule inv_alloc_cong) simp_all
        have "\<not> isConnected ?s1 m" using mc1 by (simp add: isConnected_def split: option.splits)
        then have "\<exists>k \<in> set ns. \<not> isConnected ?s1 k \<and> breaks (B k)" using ms mb by blast
        moreover have "\<forall>k \<in> set ns. map_of (config ?s1) k \<noteq> None" using pc by simp
        ultimately show ?thesis using Cons.IH [OF w1' a1' dn] by (simp add: cs Inl)
      qed
    qed
  qed
qed

text \<open>
  C5, as amended. \<open>connectAll\<close> is called in a state a run can reach, and no subprocess
  it has to start is gone when the client writes to it. Then \<open>connectAll\<close> returns,
  whatever else the subprocesses do: fail to spawn, exit before the handshake, answer
  with an error, or not answer until the timer fires. A server that is connected already
  is not started again; its known tools are returned. The map returned holds those and
  the servers whose handshake and listing succeeded, each with its tools, and no other.
  Each of them is connected afterwards. Each server that failed has a \<open>server-error\<close>
  event of its own among the events of the call and is not connected. Where the spawn
  failed or the subprocess had exited, the server is no longer registered.
  (The names of a configuration are the keys of an object, so they are distinct.)
\<close>

theorem connectAll_partial_success:
  assumes reach: "run P (new_client cfg) acts = (s, ids)"
    and dist: "distinct (map fst (config s))"
    and alive: "\<forall>n \<in> set (map fst (config s)). \<not> isConnected s n \<longrightarrow> \<not> breaks (B n)"
  shows "\<exists>results s' new. connectAll s B = Returns (results, s')
     \<and> emitted s' = emitted s @ new
     \<and> (\<forall>n. map_of results n
              = (if n \<in> set (map fst (config s)) then expected_tools s B n else None))
     \<and> (\<forall>n \<in> set (map fst (config s)).
            (expected_tools s B n = None \<longrightarrow>
               (\<exists>e. ServerError n e \<in> set new) \<and> \<not> isConnected s' n)
          \<and> (expected_tools s B n \<noteq> None \<longrightarrow> isConnected s' n)
          \<and> (\<not> isConnected s n \<and> stops (B n) \<longrightarrow> connections s' n = None))"
proof -
  have w: "wf s" using wf_run [OF wf_new_client, of P cfg acts] reach by simp
  have a: "inv_alloc s" using inv_alloc_run [OF inv_alloc_new_client, of P cfg acts] reach by simp
  have pre: "\<forall>n \<in> set (map fst (config s)). map_of (config s) n \<noteq> None
                       \<and> map_of ([] :: (jsstring \<times> json) list) n = None
                       \<and> (\<not> isConnected s n \<longrightarrow> \<not> breaks (B n))"
    using alive by (auto simp: map_of_eq_None_iff)
  obtain res s' new where
    ce: "connect_each B (map fst (config s)) [] s = Returns (res, s')"
    and m: "\<forall>k. map_of res k = (if k \<in> set (map fst (config s)) then expected_tools s B k
                                   else map_of ([] :: (jsstring \<times> json) list) k)"
    and em: "emitted s' = emitted s @ new"
    and p: "\<forall>n \<in> set (map fst (config s)).
            (expected_tools s B n = None \<longrightarrow>
               (\<exists>e. ServerError n e \<in> set new) \<and> \<not> isConnected s' n)
          \<and> (expected_tools s B n \<noteq> None \<longrightarrow> isConnected s' n)
          \<and> (\<not> isConnected s n \<and> stops (B n) \<longrightarrow> connections s' n = None)"
    using connect_each_spec [OF w a dist pre] by blast
  have m': "\<forall>n. map_of res n
              = (if n \<in> set (map fst (config s)) then expected_tools s B n else None)"
    using m by simp
  have "connectAll s B = Returns (res, s')" using ce by (simp add: connectAll_def)
  then show ?thesis using m' em p by blast
qed

text \<open>
  The other case: when the subprocess of a server that has to be started is gone by the
  time the client writes to it, \<open>connectAll\<close> does not return and the servers after it
  are not connected.
\<close>

lemma connectAll_gone:
  assumes reach: "run P (new_client cfg) acts = (s, ids)"
    and dist: "distinct (map fst (config s))"
    and gone: "\<exists>n \<in> set (map fst (config s)). \<not> isConnected s n \<and> breaks (B n)"
  shows "connectAll s B = Terminated broken_pipe"
proof -
  have w: "wf s" using wf_run [OF wf_new_client, of P cfg acts] reach by simp
  have a: "inv_alloc s" using inv_alloc_run [OF inv_alloc_new_client, of P cfg acts] reach by simp
  have pre: "\<forall>n \<in> set (map fst (config s)). map_of (config s) n \<noteq> None"
    by (auto simp: map_of_eq_None_iff)
  show ?thesis
    using connect_each_gone [OF w a dist pre gone] by (simp add: connectAll_def)
qed

lemmas connect_eval = connectAll_def connectServer_def handshake_def request_def
  await_reply_def response_object_def timeout_fires_def handle_response_def
  sendNotification_def process_error_def process_exit_def pending_get_def property_def
  truthy_def tools_of_def clearTimeout_def settle_def initialize_params_def

lemma mute_result:
  "connectAll (new_client one_server) mute = Returns ([], after_mute)"
  by (simp add: after_mute_def mute_def one_server_def connect_eval mcp_eval)

text \<open>
  C5 as stated fails: a server that never answers \<open>initialize\<close> is reported as failed,
  and its connection stays registered with its subprocess running. Nothing tears it
  down.
\<close>

theorem failed_handshake_is_not_torn_down:
  "connectAll (new_client one_server) mute = Returns ([], after_mute)
   \<and> emitted after_mute
       = [ServerError (str ''a'') (RequestTimeout (str ''initialize'') (str ''a''))]
   \<and> connections after_mute (str ''a'') = Some 0
   \<and> \<not> killed (process (heap after_mute 0))
   \<and> \<not> stdin_ended (process (heap after_mute 0))"
  by (simp add: after_mute_def mute_def one_server_def connect_eval mcp_eval)

lemma flaky_result:
  "connectAll (new_client three_servers) flaky
     = Returns ([(str ''a'', echo_tools), (str ''c'', echo_tools)], after_flaky)"
  by (simp add: after_flaky_def flaky_def healthy_def echo_tools_def three_servers_def
        connect_eval mcp_eval)

lemma flaky_offers:
  "expected_tools (new_client three_servers) flaky (str ''a'') = Some echo_tools"
  "expected_tools (new_client three_servers) flaky (str ''b'') = None"
  "expected_tools (new_client three_servers) flaky (str ''c'') = Some echo_tools"
  by (simp_all add: expected_tools_def known_tools_def new_client_def offered_tools_def
        reply_value_def flaky_def healthy_def echo_tools_def
        tools_of_def property_def truthy_def str_def)

theorem connectAll_partial_success_witness:
  "connectAll (new_client three_servers) flaky
     = Returns ([(str ''a'', echo_tools), (str ''c'', echo_tools)], after_flaky)
   \<and> isConnected after_flaky (str ''a'')
   \<and> \<not> isConnected after_flaky (str ''b'')
   \<and> isConnected after_flaky (str ''c'')
   \<and> connections after_flaky (str ''b'') = None
   \<and> (\<exists>e. ServerError (str ''b'') e \<in> set (emitted after_flaky))"
proof -
  have r: "run test_json (new_client three_servers) [] = (new_client three_servers, [])"
    by simp
  have cfg: "map fst (config (new_client three_servers)) = [str ''a'', str ''b'', str ''c'']"
    by (simp add: new_client_def three_servers_def)
  have d: "distinct (map fst (config (new_client three_servers)))"
    by (simp add: cfg str_def)
  have n: "\<forall>n \<in> set (map fst (config (new_client three_servers))).
             \<not> isConnected (new_client three_servers) n \<longrightarrow> \<not> breaks (flaky n)"
    by (simp add: breaks_def flaky_def healthy_def)
  have nc: "\<And>n. \<not> isConnected (new_client three_servers) n"
    by (simp add: isConnected_def new_client_def)
  have e0: "emitted (new_client three_servers) = []" by (simp add: new_client_def)
  obtain results s' new where
    c: "connectAll (new_client three_servers) flaky = Returns (results, s')"
    and em: "emitted s' = emitted (new_client three_servers) @ new"
    and p: "\<forall>n \<in> set (map fst (config (new_client three_servers))).
            (expected_tools (new_client three_servers) flaky n = None \<longrightarrow>
               (\<exists>e. ServerError n e \<in> set new) \<and> \<not> isConnected s' n)
          \<and> (expected_tools (new_client three_servers) flaky n \<noteq> None \<longrightarrow> isConnected s' n)
          \<and> (\<not> isConnected (new_client three_servers) n \<and> stops (flaky n) \<longrightarrow>
               connections s' n = None)"
    using connectAll_partial_success [OF r d n] by blast
  have s': "s' = after_flaky" using c flaky_result by simp
  have sf: "stops (flaky (str ''b''))" by (simp add: flaky_def stops_def)
  have pa: "isConnected s' (str ''a'')"
    using p [rule_format, of "str ''a''"] by (simp add: cfg flaky_offers)
  have pb: "(\<exists>e. ServerError (str ''b'') e \<in> set new) \<and> \<not> isConnected s' (str ''b'')
            \<and> connections s' (str ''b'') = None"
    using p [rule_format, of "str ''b''"] sf nc by (simp add: cfg flaky_offers)
  have pc: "isConnected s' (str ''c'')"
    using p [rule_format, of "str ''c''"] by (simp add: cfg flaky_offers)
  have "new = emitted s'" using em e0 by simp
  then show ?thesis using flaky_result pa pb pc by (simp add: s')
qed

text \<open>
  Three servers of which the second prints a line and exits at once: the write of
  \<open>initialize\<close> to it ends the client, and the third server is never started.
\<close>

lemma fleeting_result:
  "connectAll (new_client three_servers) fleeting = Terminated broken_pipe"
  by (simp add: fleeting_def healthy_def echo_tools_def three_servers_def
        connect_eval mcp_eval)

end
